theory Spec2Isabelle
  imports
    Main
    "HOL-Library.Char_ord"
    "HOL-Library.List_Lexorder"
    "HOL-Library.Product_Lexorder"
    "HOL-Library.AList"
begin

section \<open>Python values used by \<open>twisted.web.http_headers\<close>\<close>

text \<open>
  The module is written for Python 3 through \<open>twisted.python.compat\<close>, where
  \<open>unicode\<close> is \<open>str\<close>. A byte string is a list of 8-bit characters, a text string a
  list of code points. Header names and values are either of the two; the values
  argument of \<open>setRawHeaders\<close> and the default of \<open>getRawHeaders\<close> are arbitrary
  Python objects, of which \<open>None\<close>, a single string, a tuple and a list of strings are
  represented.
\<close>

type_synonym bytes = "char list"
type_synonym unicode = "nat list"

datatype pystr = Bytes bytes | Unicode unicode

datatype pyval = PyNone | PyStr pystr | PyTuple "pystr list" | PyList "pystr list"

datatype error =
    TypeError | KeyError | IndexError | AttributeError
  | UnicodeEncodeError | UnicodeDecodeError

subsection \<open>Built-in string methods\<close>

text \<open>\<open>bytes.lower\<close>, \<open>bytes.upper\<close>: only the ASCII letters change.\<close>

definition byte_lower :: "char \<Rightarrow> char" where
  "byte_lower c =
     (if 65 \<le> (of_char c :: nat) \<and> (of_char c :: nat) \<le> 90
      then char_of ((of_char c :: nat) + 32) else c)"

definition byte_upper :: "char \<Rightarrow> char" where
  "byte_upper c =
     (if 97 \<le> (of_char c :: nat) \<and> (of_char c :: nat) \<le> 122
      then char_of ((of_char c :: nat) - 32) else c)"

definition bytes_lower :: "bytes \<Rightarrow> bytes" where
  "bytes_lower b = map byte_lower b"

text \<open>\<open>bytes.capitalize\<close>: first byte upper-cased, the others lower-cased.\<close>

fun bytes_capitalize :: "bytes \<Rightarrow> bytes" where
  "bytes_capitalize [] = []"
| "bytes_capitalize (c # cs) = byte_upper c # map byte_lower cs"

text \<open>\<open>b.split(sep)\<close> for a one-byte separator: \<open>b''.split(b'-') == [b'']\<close>.\<close>

fun bytes_split :: "char \<Rightarrow> bytes \<Rightarrow> bytes list" where
  "bytes_split sep [] = [[]]"
| "bytes_split sep (c # cs) =
     (if c = sep then [] # bytes_split sep cs
      else (case bytes_split sep cs of
              [] \<Rightarrow> [[c]]
            | w # ws \<Rightarrow> (c # w) # ws))"

text \<open>\<open>sep.join(words)\<close>.\<close>

fun bytes_join :: "bytes \<Rightarrow> bytes list \<Rightarrow> bytes" where
  "bytes_join sep [] = []"
| "bytes_join sep [w] = w"
| "bytes_join sep (w # v # ws) = w @ sep @ bytes_join sep (v # ws)"

text \<open>
  \<open>str.lower\<close>. Below U+0100 the lower-case mapping is written out: the ASCII letters
  and the Latin-1 capitals U+00C0 to U+00DE, the multiplication sign U+00D7 apart. The
  mapping of the other code points is the Unicode character database's, which is no part
  of this module: it is the parameter \<open>ucd\<close>, giving the lower-case expansion of one code
  point. (Python's one context rule, for the final sigma, chooses between two code
  points above U+00FF and is not distinguished here.)
\<close>

definition latin1_lower :: "nat \<Rightarrow> nat" where
  "latin1_lower c =
     (if 65 \<le> c \<and> c \<le> 90 then c + 32
      else if 192 \<le> c \<and> c \<le> 222 \<and> c \<noteq> 215 then c + 32
      else c)"

definition unicode_lower :: "(nat \<Rightarrow> nat list) \<Rightarrow> unicode \<Rightarrow> unicode" where
  "unicode_lower ucd t =
     concat (map (\<lambda>c. if c < 256 then [latin1_lower c] else ucd c) t)"

fun lower :: "(nat \<Rightarrow> nat list) \<Rightarrow> pystr \<Rightarrow> pystr" where
  "lower ucd (Bytes b) = Bytes (bytes_lower b)"
| "lower ucd (Unicode t) = Unicode (unicode_lower ucd t)"

subsection \<open>Codecs\<close>

text \<open>\<open>t.encode('iso-8859-1')\<close> and \<open>b.decode('iso-8859-1')\<close>.\<close>

definition latin1_encode :: "unicode \<Rightarrow> error + bytes" where
  "latin1_encode t =
     (if list_all (\<lambda>c. c < 256) t then Inr (map char_of t) else Inl UnicodeEncodeError)"

definition latin1_decode :: "bytes \<Rightarrow> unicode" where
  "latin1_decode b = map of_char b"

text \<open>
  \<open>t.encode('utf8')\<close>: one to four bytes per code point; the surrogates U+D800 to
  U+DFFF are refused. A text string holds no code point above U+10FFFF; the last branch
  is never taken.
\<close>

definition utf8_encode_char :: "nat \<Rightarrow> error + bytes" where
  "utf8_encode_char c =
     (if c < 0x80 then Inr [char_of c]
      else if c < 0x800 then
        Inr [char_of (0xC0 + c div 64), char_of (0x80 + c mod 64)]
      else if c < 0x10000 then
        (if 0xD800 \<le> c \<and> c \<le> 0xDFFF then Inl UnicodeEncodeError
         else Inr [char_of (0xE0 + c div 4096), char_of (0x80 + (c div 64) mod 64),
                   char_of (0x80 + c mod 64)])
      else if c < 0x110000 then
        Inr [char_of (0xF0 + c div 262144), char_of (0x80 + (c div 4096) mod 64),
             char_of (0x80 + (c div 64) mod 64), char_of (0x80 + c mod 64)]
      else Inl UnicodeEncodeError)"

fun utf8_encode :: "unicode \<Rightarrow> error + bytes" where
  "utf8_encode [] = Inr []"
| "utf8_encode (c # cs) =
     (case utf8_encode_char c of
        Inl e \<Rightarrow> Inl e
      | Inr b \<Rightarrow> (case utf8_encode cs of Inl e \<Rightarrow> Inl e | Inr bs \<Rightarrow> Inr (b @ bs)))"

text \<open>
  \<open>b.decode('utf8')\<close>, strict: over-long forms, surrogates, values above U+10FFFF,
  stray continuation bytes and truncated sequences are refused. The decoder works on the
  byte values.
\<close>

definition cont :: "nat \<Rightarrow> bool" where
  "cont b = (0x80 \<le> b \<and> b < 0xC0)"

fun utf8_dec :: "nat list \<Rightarrow> nat list option" where
  "utf8_dec [] = Some []"
| "utf8_dec (b0 # bs) =
     (if b0 < 0x80 then map_option (Cons b0) (utf8_dec bs)
      else if b0 < 0xC2 then None
      else if b0 < 0xE0 then
        (case bs of
           b1 # r \<Rightarrow>
             if cont b1
             then map_option (Cons ((b0 - 0xC0) * 64 + (b1 - 0x80))) (utf8_dec r)
             else None
         | _ \<Rightarrow> None)
      else if b0 < 0xF0 then
        (case bs of
           b1 # b2 # r \<Rightarrow>
             if cont b1 \<and> cont b2
                \<and> (if b0 = 0xE0 then 0xA0 \<le> b1 else True)
                \<and> (if b0 = 0xED then b1 < 0xA0 else True)
             then map_option
                    (Cons ((b0 - 0xE0) * 4096 + (b1 - 0x80) * 64 + (b2 - 0x80)))
                    (utf8_dec r)
             else None
         | _ \<Rightarrow> None)
      else if b0 < 0xF5 then
        (case bs of
           b1 # b2 # b3 # r \<Rightarrow>
             if cont b1 \<and> cont b2 \<and> cont b3
                \<and> (if b0 = 0xF0 then 0x90 \<le> b1 else True)
                \<and> (if b0 = 0xF4 then b1 < 0x90 else True)
             then map_option
                    (Cons ((b0 - 0xF0) * 262144 + (b1 - 0x80) * 4096
                           + (b2 - 0x80) * 64 + (b3 - 0x80)))
                    (utf8_dec r)
             else None
         | _ \<Rightarrow> None)
      else None)"

definition utf8_decode :: "bytes \<Rightarrow> error + unicode" where
  "utf8_decode b =
     (case utf8_dec (map of_char b) of
        None \<Rightarrow> Inl UnicodeDecodeError
      | Some t \<Rightarrow> Inr t)"


text \<open>
  \<open>sorted(items)\<close>: a stable sort by \<open><\<close>. Tuples and lists compare lexicographically
  and byte strings by byte value, which are the orders of the imported instances.
\<close>

definition py_sorted :: "('a::linorder) list \<Rightarrow> 'a list" where
  "py_sorted xs = sort xs"

text \<open>
  Modelled from the spec: \<open>cmp\<close> and the class decorator \<open>comparable\<close> of
  \<open>twisted.python.compat\<close>, which are not part of the source given. \<open>cmp a b\<close> is the
  three-way comparison (negative, zero, positive), and \<open>comparable\<close> derives \<open>==\<close> from
  \<open>__cmp__\<close>: two stores are equal when \<open>__cmp__\<close> returns zero. A \<open>NotImplemented\<close>
  result makes \<open>==\<close> fall back to identity, which is false for an object that is not a
  store.
\<close>

definition cmp :: "('a::linorder) \<Rightarrow> 'a \<Rightarrow> int" where
  "cmp a b = (if a < b then - 1 else if a = b then 0 else 1)"

section \<open>The module\<close>

subsection \<open>\<open>_dashCapitalize\<close>\<close>

definition dashCapitalize :: "bytes \<Rightarrow> bytes" where
  "dashCapitalize name =
     bytes_join ''-'' (map bytes_capitalize (bytes_split CHR ''-'' name))"

subsection \<open>\<open>Headers\<close>\<close>

text \<open>
  \<open>_rawHeaders\<close> is a dict from byte strings to lists of byte strings: an association
  list in the dict's iteration order, each key once. Assigning to a present key keeps
  its place, assigning to a new key appends it, \<open>pop\<close> deletes it.
\<close>

record headers =
  rawHeaders :: "(bytes \<times> bytes list) list"

type_synonym ucd = "nat \<Rightarrow> nat list"

definition caseMappings :: "(bytes \<times> bytes) list" where
  "caseMappings =
     [(''content-md5'', ''Content-MD5''),
      (''dnt'', ''DNT''),
      (''etag'', ''ETag''),
      (''p3p'', ''P3P''),
      (''te'', ''TE''),
      (''www-authenticate'', ''WWW-Authenticate''),
      (''x-xss-protection'', ''X-XSS-Protection'')]"

definition decodeName :: "bytes \<Rightarrow> unicode" where
  "decodeName name = latin1_decode name"

fun encodeName :: "pystr \<Rightarrow> error + bytes" where
  "encodeName (Unicode t) = latin1_encode t"
| "encodeName (Bytes b) = Inr b"

fun encodeValue :: "pystr \<Rightarrow> error + bytes" where
  "encodeValue (Unicode t) = utf8_encode t"
| "encodeValue (Bytes b) = Inr b"

fun encodeValues :: "pystr list \<Rightarrow> error + bytes list" where
  "encodeValues [] = Inr []"
| "encodeValues (v # vs) =
     (case encodeValue v of
        Inl e \<Rightarrow> Inl e
      | Inr b \<Rightarrow> (case encodeValues vs of Inl e \<Rightarrow> Inl e | Inr bs \<Rightarrow> Inr (b # bs)))"

text \<open>
  \<open>value.decode('utf8')\<close> inside \<open>_decodeValues\<close>: a text string has no \<open>decode\<close>
  method.
\<close>

fun decodeValue :: "pystr \<Rightarrow> error + pystr" where
  "decodeValue (Bytes b) =
     (case utf8_decode b of Inl e \<Rightarrow> Inl e | Inr t \<Rightarrow> Inr (Unicode t))"
| "decodeValue (Unicode t) = Inl AttributeError"

fun decodeList :: "pystr list \<Rightarrow> error + pystr list" where
  "decodeList [] = Inr []"
| "decodeList (v # vs) =
     (case decodeValue v of
        Inl e \<Rightarrow> Inl e
      | Inr w \<Rightarrow> (case decodeList vs of Inl e \<Rightarrow> Inl e | Inr ws \<Rightarrow> Inr (w # ws)))"

fun decodeValues :: "pyval \<Rightarrow> error + pyval" where
  "decodeValues (PyList vs) =
     (case decodeList vs of Inl e \<Rightarrow> Inl e | Inr ws \<Rightarrow> Inr (PyList ws))"
| "decodeValues v = Inr v"

definition hasHeader :: "ucd \<Rightarrow> headers \<Rightarrow> pystr \<Rightarrow> error + bool" where
  "hasHeader ucd h name =
     (case encodeName (lower ucd name) of
        Inl e \<Rightarrow> Inl e
      | Inr k \<Rightarrow> Inr (k \<in> set (map fst (rawHeaders h))))"

definition removeHeader :: "ucd \<Rightarrow> headers \<Rightarrow> pystr \<Rightarrow> error + headers" where
  "removeHeader ucd h name =
     (case encodeName (lower ucd name) of
        Inl e \<Rightarrow> Inl e
      | Inr k \<Rightarrow> Inr (h\<lparr>rawHeaders := AList.delete k (rawHeaders h)\<rparr>))"

text \<open>
  A raise leaves the store as it was: \<open>setRawHeaders\<close> assigns only after the type
  check, the name and every value went through.
\<close>

definition setRawHeaders :: "ucd \<Rightarrow> headers \<Rightarrow> pystr \<Rightarrow> pyval \<Rightarrow> error + headers" where
  "setRawHeaders ucd h name values =
     (case values of
        PyList vs \<Rightarrow>
          (case encodeName (lower ucd name) of
             Inl e \<Rightarrow> Inl e
           | Inr k \<Rightarrow>
               (case encodeValues vs of
                  Inl e \<Rightarrow> Inl e
                | Inr bs \<Rightarrow> Inr (h\<lparr>rawHeaders := AList.update k bs (rawHeaders h)\<rparr>)))
      | _ \<Rightarrow> Inl TypeError)"

definition getRawHeaders :: "ucd \<Rightarrow> headers \<Rightarrow> pystr \<Rightarrow> pyval \<Rightarrow> error + pyval" where
  "getRawHeaders ucd h name dflt =
     (case encodeName (lower ucd name) of
        Inl e \<Rightarrow> Inl e
      | Inr encodedName \<Rightarrow>
          (let values = (case map_of (rawHeaders h) encodedName of
                           None \<Rightarrow> dflt
                         | Some vs \<Rightarrow> PyList (map Bytes vs))
           in (case name of
                 Unicode _ \<Rightarrow> decodeValues values
               | Bytes _ \<Rightarrow> Inr values)))"

text \<open>
  \<open>addRawHeader\<close> encodes the name first and passes the byte string on, so the lookup
  and the assignment lower-case it as bytes. \<open>values.append\<close> changes the stored list
  in place before \<open>setRawHeaders\<close> assigns an encoded copy of it to the same key; the
  store holds the same mapping after both. Calling \<open>append\<close> on anything but a list
  raises.
\<close>

definition addRawHeader :: "ucd \<Rightarrow> headers \<Rightarrow> pystr \<Rightarrow> pystr \<Rightarrow> error + headers" where
  "addRawHeader ucd h name val =
     (case encodeName name of
        Inl e \<Rightarrow> Inl e
      | Inr n \<Rightarrow>
          (case encodeValue val of
             Inl e \<Rightarrow> Inl e
           | Inr v \<Rightarrow>
               (case getRawHeaders ucd h (Bytes n) PyNone of
                  Inl e \<Rightarrow> Inl e
                | Inr PyNone \<Rightarrow> setRawHeaders ucd h (Bytes n) (PyList [Bytes v])
                | Inr (PyList vs) \<Rightarrow> setRawHeaders ucd h (Bytes n) (PyList (vs @ [Bytes v]))
                | Inr _ \<Rightarrow> Inl AttributeError)))"

text \<open>
  \<open>__init__\<close>: the optional mapping is given by its items, each value an iterable of
  strings. Names and values are encoded before \<open>setRawHeaders\<close> is called.
\<close>

fun init_items :: "ucd \<Rightarrow> headers \<Rightarrow> (pystr \<times> pystr list) list \<Rightarrow> error + headers" where
  "init_items ucd h [] = Inr h"
| "init_items ucd h ((name, values) # rest) =
     (case encodeName name of
        Inl e \<Rightarrow> Inl e
      | Inr n \<Rightarrow>
          (case encodeValues values of
             Inl e \<Rightarrow> Inl e
           | Inr bs \<Rightarrow>
               (case setRawHeaders ucd h (Bytes n) (PyList (map Bytes bs)) of
                  Inl e \<Rightarrow> Inl e
                | Inr h' \<Rightarrow> init_items ucd h' rest)))"

definition Headers :: "ucd \<Rightarrow> (pystr \<times> pystr list) list option \<Rightarrow> error + headers" where
  "Headers ucd rawHeaders0 =
     (case rawHeaders0 of
        None \<Rightarrow> Inr \<lparr>rawHeaders = []\<rparr>
      | Some items \<Rightarrow> init_items ucd \<lparr>rawHeaders = []\<rparr> items)"

definition copy :: "ucd \<Rightarrow> headers \<Rightarrow> error + headers" where
  "copy ucd h =
     Headers ucd (Some (map (\<lambda>(k, vs). (Bytes k, map Bytes vs)) (rawHeaders h)))"

text \<open>
  \<open>_canonicalNameCaps\<close>. The table lookup and the generic rule work on the encoded
  name; \<open>canonicalName\<close> is that part, which is all \<open>getAllRawHeaders\<close> uses, its keys
  being byte strings.
\<close>

definition canonicalName :: "bytes \<Rightarrow> bytes" where
  "canonicalName encodedName =
     (case map_of caseMappings encodedName of
        Some c \<Rightarrow> c
      | None \<Rightarrow> dashCapitalize encodedName)"

definition canonicalNameCaps :: "pystr \<Rightarrow> error + pystr" where
  "canonicalNameCaps name =
     (case encodeName name of
        Inl e \<Rightarrow> Inl e
      | Inr encodedName \<Rightarrow>
          (case name of
             Unicode _ \<Rightarrow> Inr (Unicode (decodeName (canonicalName encodedName)))
           | Bytes _ \<Rightarrow> Inr (Bytes (canonicalName encodedName))))"

definition getAllRawHeaders :: "headers \<Rightarrow> (bytes \<times> bytes list) list" where
  "getAllRawHeaders h = map (\<lambda>(k, v). (canonicalName k, v)) (rawHeaders h)"

text \<open>\<open>__cmp__\<close> and the \<open>==\<close> that \<open>comparable\<close> derives from it.\<close>

datatype pyobj = HeadersObj headers | OtherObj

fun Headers_cmp :: "headers \<Rightarrow> pyobj \<Rightarrow> int option" where
  "Headers_cmp h (HeadersObj other) =
     Some (cmp (py_sorted (rawHeaders h)) (py_sorted (rawHeaders other)))"
| "Headers_cmp h OtherObj = None"

definition Headers_eq :: "headers \<Rightarrow> pyobj \<Rightarrow> bool" where
  "Headers_eq h other =
     (case Headers_cmp h other of None \<Rightarrow> False | Some c \<Rightarrow> c = 0)"

subsection \<open>\<open>_DictHeaders\<close>\<close>

text \<open>
  The view holds a reference to a store and has no state of its own: its operations
  are functions of the store. \<open>xs[-1]\<close> raises \<open>IndexError\<close> on an empty list, and
  subscripting \<open>None\<close> raises \<open>TypeError\<close>. \<open>getRawHeaders\<close> is called with its
  default \<open>None\<close>, so it returns a list or \<open>None\<close> and the last branch stands for \<open>None\<close>.
\<close>

definition DictHeaders_getitem :: "ucd \<Rightarrow> headers \<Rightarrow> pystr \<Rightarrow> error + pystr" where
  "DictHeaders_getitem ucd h key =
     (case hasHeader ucd h key of
        Inl e \<Rightarrow> Inl e
      | Inr False \<Rightarrow> Inl KeyError
      | Inr True \<Rightarrow>
          (case getRawHeaders ucd h key PyNone of
             Inl e \<Rightarrow> Inl e
           | Inr (PyList vs) \<Rightarrow> (if vs = [] then Inl IndexError else Inr (last vs))
           | Inr (PyTuple vs) \<Rightarrow> (if vs = [] then Inl IndexError else Inr (last vs))
           | Inr _ \<Rightarrow> Inl TypeError))"

subsection \<open>An excerpt of the lower-case table\<close>

text \<open>
  Some entries of the Unicode lower-case mapping above U+00FF, for evaluating the
  operations on concrete names: the Kelvin sign U+212A lower-cases to \<open>k\<close>, the
  Angstrom sign U+212B to U+00E5, the capital Y with diaeresis U+0178 to U+00FF, the
  capital sharp s U+1E9E to U+00DF, the capital I with dot above U+0130 to \<open>i\<close>
  followed by U+0307, the capital A with macron U+0100 to U+0101. It is not the whole
  table: a code point that is not listed comes back unchanged, which is right for the
  caseless ones only. The evaluations below use names below U+0100, for which the table
  is never consulted (\<open>unicode_lower_latin1\<close>); the general theorems hold for every
  table.
\<close>

definition ucd_excerpt :: ucd where
  "ucd_excerpt c =
     (if c = 0x212A then [0x6B]
      else if c = 0x212B then [0xE5]
      else if c = 0x178 then [0xFF]
      else if c = 0x1E9E then [0xDF]
      else if c = 0x130 then [0x69, 0x307]
      else if c = 0x100 then [0x101]
      else [c])"

subsection \<open>Sequences of calls\<close>

text \<open>
  The three mutators as data, to speak of the stores reachable through them. A call
  that raises leaves the store as it was, and the caller may go on with the next call.
\<close>

datatype operation =
    SetRawHeaders pystr pyval
  | AddRawHeader pystr pystr
  | RemoveHeader pystr

fun perform :: "ucd \<Rightarrow> headers \<Rightarrow> operation \<Rightarrow> error + headers" where
  "perform ucd h (SetRawHeaders name values) = setRawHeaders ucd h name values"
| "perform ucd h (AddRawHeader name val) = addRawHeader ucd h name val"
| "perform ucd h (RemoveHeader name) = removeHeader ucd h name"

definition step :: "ucd \<Rightarrow> headers \<Rightarrow> operation \<Rightarrow> headers" where
  "step ucd h operation = (case perform ucd h operation of Inl e \<Rightarrow> h | Inr h' \<Rightarrow> h')"

definition run :: "ucd \<Rightarrow> headers \<Rightarrow> operation list \<Rightarrow> headers" where
  "run ucd h ops = foldl (step ucd) h ops"

text \<open>Every entry of the store holds at least one value.\<close>

definition nonempty_values :: "headers \<Rightarrow> bool" where
  "nonempty_values h = list_all (\<lambda>(k, vs). vs \<noteq> []) (rawHeaders h)"

text \<open>The call is not a \<open>setRawHeaders\<close> with the empty list.\<close>

fun sets_nonempty :: "operation \<Rightarrow> bool" where
  "sets_nonempty (SetRawHeaders name values) = (values \<noteq> PyList [])"
| "sets_nonempty _ = True"

subsection \<open>The capitalization rule in the spec's words\<close>

text \<open>
  ``Split the name on the literal \<open>-\<close> separator, upper-case the first character of
  each segment (lower-case the rest), and rejoin with \<open>-\<close>'': read character by
  character, a \<open>-\<close> stays and opens a segment, the character that opens a segment is
  upper-cased and every other one lower-cased. \<open>first\<close> tells whether the next
  character opens a segment.
\<close>

fun spec_segments :: "bool \<Rightarrow> bytes \<Rightarrow> bytes" where
  "spec_segments first [] = []"
| "spec_segments first (c # cs) =
     (if c = CHR ''-'' then c # spec_segments True cs
      else (if first then byte_upper c else byte_lower c) # spec_segments False cs)"

definition spec_dashCapitalize :: "bytes \<Rightarrow> bytes" where
  "spec_dashCapitalize name = spec_segments True name"

subsection \<open>Names that differ in the case of letters\<close>

text \<open>
  Two names of the same type are variants when they have the same length and agree
  position by position up to the case of a letter: for bytes an ASCII capital and its
  small letter, 32 above it; for text also a Latin-1 capital (U+00C0 to U+00DE, U+00D7
  apart) and its small letter, while code points above U+00FF must agree. A byte name
  and a text name are variants when the text is below U+0100, holds none of those
  Latin-1 capitals, and is position by position the byte up to the case of an ASCII
  letter.
\<close>

definition same_letter_byte :: "char \<Rightarrow> char \<Rightarrow> bool" where
  "same_letter_byte c d =
     (c = d
      \<or> (65 \<le> (of_char c :: nat) \<and> (of_char c :: nat) \<le> 90
           \<and> (of_char d :: nat) = of_char c + 32)
      \<or> (65 \<le> (of_char d :: nat) \<and> (of_char d :: nat) \<le> 90
           \<and> (of_char c :: nat) = of_char d + 32))"

definition latin1_capital :: "nat \<Rightarrow> bool" where
  "latin1_capital c = ((65 \<le> c \<and> c \<le> 90) \<or> (192 \<le> c \<and> c \<le> 222 \<and> c \<noteq> 215))"

definition same_letter_cp :: "nat \<Rightarrow> nat \<Rightarrow> bool" where
  "same_letter_cp c d =
     (c = d \<or> (latin1_capital c \<and> d = c + 32) \<or> (latin1_capital d \<and> c = d + 32))"

definition mixed_letter :: "char \<Rightarrow> nat \<Rightarrow> bool" where
  "mixed_letter c u =
     (u < 256 \<and> (u < 192 \<or> 222 < u \<or> u = 215) \<and> same_letter_byte c (char_of u))"

fun case_variant :: "pystr \<Rightarrow> pystr \<Rightarrow> bool" where
  "case_variant (Bytes a) (Bytes b) = list_all2 same_letter_byte a b"
| "case_variant (Unicode a) (Unicode b) = list_all2 same_letter_cp a b"
| "case_variant (Bytes a) (Unicode t) = list_all2 mixed_letter a t"
| "case_variant (Unicode t) (Bytes a) = list_all2 mixed_letter a t"

subsection \<open>Strings of one type\<close>

text \<open>Whether a value has the type of the name it is stored under.\<close>

fun same_type :: "pystr \<Rightarrow> pystr \<Rightarrow> bool" where
  "same_type (Bytes n) (Bytes b) = True"
| "same_type (Unicode n) (Unicode t) = True"
| "same_type _ _ = False"

subsection \<open>A well-formed dict\<close>

text \<open>A Python dict holds each key once: the keys of the association list are distinct.\<close>

definition dict_keys_distinct :: "headers \<Rightarrow> bool" where
  "dict_keys_distinct h = distinct (map fst (rawHeaders h))"

section \<open>Properties\<close>

subsection \<open>The errors of the encoders\<close>

lemma latin1_encode_error: "latin1_encode t = Inl e \<Longrightarrow> e = UnicodeEncodeError"
  by (simp add: latin1_encode_def split: if_splits)

lemma utf8_encode_char_error: "utf8_encode_char c = Inl e \<Longrightarrow> e = UnicodeEncodeError"
  by (simp add: utf8_encode_char_def split: if_splits)

lemma utf8_encode_error: "utf8_encode t = Inl e \<Longrightarrow> e = UnicodeEncodeError"
  by (induction t) (auto split: sum.splits dest: utf8_encode_char_error)

lemma encodeName_error: "encodeName n = Inl e \<Longrightarrow> e = UnicodeEncodeError"
  by (cases n) (auto dest: latin1_encode_error)

lemma encodeValue_error: "encodeValue v = Inl e \<Longrightarrow> e = UnicodeEncodeError"
  by (cases v) (auto dest: utf8_encode_error)

lemma encodeValues_error: "encodeValues vs = Inl e \<Longrightarrow> e = UnicodeEncodeError"
  by (induction vs) (auto split: sum.splits dest: encodeValue_error)

subsection \<open>C5: the type check of \<open>setRawHeaders\<close>\<close>

text \<open>
  C5. \<open>setRawHeaders(name, values)\<close> raises \<open>TypeError\<close> for every \<open>values\<close> that is
  not a list: \<open>None\<close>, a single string, a tuple. No store is returned, so nothing is
  wrapped or coerced, and the raise comes before the name is looked at. A list never
  raises \<open>TypeError\<close>.
\<close>

theorem setRawHeaders_non_list_TypeError:
  "setRawHeaders ucd h name PyNone = Inl TypeError
   \<and> setRawHeaders ucd h name (PyStr s) = Inl TypeError
   \<and> setRawHeaders ucd h name (PyTuple vs) = Inl TypeError
   \<and> setRawHeaders ucd h name (PyList vs) \<noteq> Inl TypeError"
proof -
  have "setRawHeaders ucd h name (PyList vs) \<noteq> Inl TypeError"
    by (auto simp: setRawHeaders_def split: sum.splits
             dest: encodeName_error encodeValues_error)
  then show ?thesis
    by (simp add: setRawHeaders_def)
qed

subsection \<open>What the encoders and the mutators compute\<close>

lemma encodeValues_length: "encodeValues vs = Inr bs \<Longrightarrow> length bs = length vs"
  by (induction vs arbitrary: bs) (auto split: sum.splits)

lemma encodeValues_Bytes: "encodeValues (map Bytes bs) = Inr bs"
  by (induction bs) auto

lemma encodeValues_append:
  "encodeValues (xs @ ys) =
     (case encodeValues xs of
        Inl e \<Rightarrow> Inl e
      | Inr as \<Rightarrow> (case encodeValues ys of Inl e \<Rightarrow> Inl e | Inr bs \<Rightarrow> Inr (as @ bs)))"
  by (induction xs) (auto split: sum.splits)

lemma list_all_update:
  "list_all P al \<Longrightarrow> P (k, v) \<Longrightarrow> list_all P (AList.update k v al)"
  by (induction al) auto

lemma list_all_delete: "list_all P al \<Longrightarrow> list_all P (AList.delete k al)"
  by (induction al) auto

lemma getRawHeaders_Bytes:
  "getRawHeaders ucd h (Bytes n) d =
     Inr (case map_of (rawHeaders h) (bytes_lower n) of
            None \<Rightarrow> d
          | Some vs \<Rightarrow> PyList (map Bytes vs))"
  by (simp add: getRawHeaders_def)

lemma setRawHeaders_Bytes:
  "setRawHeaders ucd h (Bytes n) (PyList (map Bytes bs)) =
     Inr (h\<lparr>rawHeaders := AList.update (bytes_lower n) bs (rawHeaders h)\<rparr>)"
  by (simp add: setRawHeaders_def encodeValues_Bytes)

lemma addRawHeader_result:
  assumes "encodeName name = Inr n" and "encodeValue val = Inr v"
  shows "addRawHeader ucd h name val =
     Inr (h\<lparr>rawHeaders :=
            AList.update (bytes_lower n)
              ((case map_of (rawHeaders h) (bytes_lower n) of None \<Rightarrow> [] | Some vs \<Rightarrow> vs) @ [v])
              (rawHeaders h)\<rparr>)"
proof (cases "map_of (rawHeaders h) (bytes_lower n)")
  case None
  then show ?thesis
    using assms setRawHeaders_Bytes [of ucd h n "[v]"]
    by (simp add: addRawHeader_def getRawHeaders_Bytes)
next
  case (Some vs)
  then show ?thesis
    using assms setRawHeaders_Bytes [of ucd h n "vs @ [v]"]
    by (simp add: addRawHeader_def getRawHeaders_Bytes)
qed

lemma addRawHeader_error:
  "addRawHeader ucd h name val = Inl e \<Longrightarrow> e = UnicodeEncodeError"
proof -
  assume a: "addRawHeader ucd h name val = Inl e"
  show ?thesis
  proof (cases "encodeName name")
    case (Inl e1)
    then show ?thesis using a encodeName_error by (simp add: addRawHeader_def)
  next
    case (Inr n)
    show ?thesis
    proof (cases "encodeValue val")
      case (Inl e2)
      then show ?thesis using a Inr encodeValue_error by (simp add: addRawHeader_def)
    next
      case v: (Inr v)
      then show ?thesis using a Inr addRawHeader_result [OF Inr v] by simp
    qed
  qed
qed

subsection \<open>Decoding what the UTF-8 encoder wrote\<close>

lemma div_div_64: "(c::nat) div 4096 = (c div 64) div 64"
  by (simp add: div_mult2_eq [symmetric])

lemma div_div_4096: "(c::nat) div 262144 = (c div 4096) div 64"
  by (simp add: div_mult2_eq [symmetric])

lemma join_3: "c = q * 64 + r \<Longrightarrow> q = x * 64 + y \<Longrightarrow> c = x * 4096 + y * 64 + (r::nat)"
  by simp

lemma join_4:
  "c = q * 64 + r \<Longrightarrow> q = x * 64 + y \<Longrightarrow> x = u * 64 + v
     \<Longrightarrow> c = u * 262144 + v * 4096 + y * 64 + (r::nat)"
  by simp

lemma split_3: "(c::nat) = (c div 4096) * 4096 + ((c div 64) mod 64) * 64 + c mod 64"
proof -
  have a: "c = (c div 64) * 64 + c mod 64" by simp
  have b: "c div 64 = ((c div 64) div 64) * 64 + (c div 64) mod 64" by simp
  from join_3 [OF a b] show ?thesis by (simp only: div_div_64)
qed

lemma split_4:
  "(c::nat) = (c div 262144) * 262144 + ((c div 4096) mod 64) * 4096
                + ((c div 64) mod 64) * 64 + c mod 64"
proof -
  have a: "c = (c div 64) * 64 + c mod 64" by simp
  have b: "c div 64 = (c div 4096) * 64 + (c div 64) mod 64"
    by (simp add: div_div_64)
  have d: "c div 4096 = (c div 262144) * 64 + (c div 4096) mod 64"
    by (simp add: div_div_4096)
  from join_4 [OF a b d] show ?thesis .
qed

lemma bound_2: "0x80 \<le> (c::nat) \<Longrightarrow> c < 0x800 \<Longrightarrow> 2 \<le> c div 64 \<and> c div 64 < 32"
  by linarith

lemma bound_3: "(c::nat) < 0x10000 \<Longrightarrow> c div 4096 < 16"
  by linarith

lemma bound_3_E0: "0x800 \<le> (c::nat) \<Longrightarrow> c div 4096 = 0 \<Longrightarrow> 32 \<le> (c div 64) mod 64"
proof -
  assume a: "0x800 \<le> c" and b: "c div 4096 = 0"
  from b have "(c div 64) div 64 = 0" by (simp add: div_div_64)
  then have "c div 64 < 64" by simp
  moreover from a have "32 \<le> c div 64" by linarith
  ultimately show ?thesis by simp
qed

lemma bound_3_ED: "\<not> (0xD800 \<le> (c::nat) \<and> c \<le> 0xDFFF) \<Longrightarrow> c div 4096 = 13 \<Longrightarrow> (c div 64) mod 64 < 32"
proof -
  assume a: "\<not> (0xD800 \<le> c \<and> c \<le> 0xDFFF)" and b: "c div 4096 = 13"
  from b have d: "(c div 64) div 64 = 13" by (simp add: div_div_64)
  have e: "c div 64 = ((c div 64) div 64) * 64 + (c div 64) mod 64" by simp
  from b have "c < 0xE000" by linarith
  with a have "c < 0xD800" by linarith
  then have "c div 64 < 864" by linarith
  with d e show ?thesis by linarith
qed

lemma bound_4: "(c::nat) < 0x110000 \<Longrightarrow> c div 262144 < 5"
  by linarith

lemma bound_4_F0: "0x10000 \<le> (c::nat) \<Longrightarrow> c div 262144 = 0 \<Longrightarrow> 16 \<le> (c div 4096) mod 64"
proof -
  assume a: "0x10000 \<le> c" and b: "c div 262144 = 0"
  from b have "(c div 4096) div 64 = 0" by (simp add: div_div_4096)
  then have "c div 4096 < 64" by simp
  moreover from a have "16 \<le> c div 4096" by linarith
  ultimately show ?thesis by simp
qed

lemma bound_4_F4: "(c::nat) < 0x110000 \<Longrightarrow> c div 262144 = 4 \<Longrightarrow> (c div 4096) mod 64 < 16"
proof -
  assume a: "c < 0x110000" and b: "c div 262144 = 4"
  from b have d: "(c div 4096) div 64 = 4" by (simp add: div_div_4096)
  have e: "c div 4096 = ((c div 4096) div 64) * 64 + (c div 4096) mod 64" by simp
  from a have "c div 4096 < 272" by linarith
  with d e show ?thesis by linarith
qed

lemma dec_2_parts:
  assumes "2 \<le> q" and "q < 32" and "r < 64"
  shows "utf8_dec ((0xC0 + q) # (0x80 + r) # rest)
           = map_option (Cons (q * 64 + r)) (utf8_dec rest)"
proof -
  have 1: "\<not> 0xC0 + q < 0x80" "\<not> 0xC0 + q < 0xC2" "0xC0 + q < 0xE0" using assms by linarith+
  have 2: "cont (0x80 + r)" using assms by (simp add: cont_def)
  show ?thesis by (simp only: utf8_dec.simps 1 2 if_True if_False list.case add_diff_cancel_left')
qed


lemma dec_3_parts:
  assumes "p < 16" and "q < 64" and "r < 64"
    and "p = 0 \<Longrightarrow> 32 \<le> q" and "p = 13 \<Longrightarrow> q < 32"
  shows "utf8_dec ((0xE0 + p) # (0x80 + q) # (0x80 + r) # rest)
           = map_option (Cons (p * 4096 + q * 64 + r)) (utf8_dec rest)"
proof -
  have 1: "\<not> 0xE0 + p < 0x80" "\<not> 0xE0 + p < 0xC2" "\<not> 0xE0 + p < 0xE0" "0xE0 + p < 0xF0"
    using assms(1) by linarith+
  have 2: "cont (0x80 + q)" "cont (0x80 + r)" using assms(2,3) by (simp_all add: cont_def)
  have 3: "(if 0xE0 + p = 0xE0 then 0xA0 \<le> 0x80 + q else True) = True"
    using assms(4) by simp
  have 4: "(if 0xE0 + p = 0xED then 0x80 + q < 0xA0 else True) = True"
    using assms(5) by simp
  show ?thesis
    by (simp only: utf8_dec.simps 1 2 3 4 if_True if_False list.case add_diff_cancel_left' simp_thms)
qed

lemma dec_4_parts:
  assumes "p < 5" and "q < 64" and "r < 64" and "s < 64"
    and "p = 0 \<Longrightarrow> 16 \<le> q" and "p = 4 \<Longrightarrow> q < 16"
  shows "utf8_dec ((0xF0 + p) # (0x80 + q) # (0x80 + r) # (0x80 + s) # rest)
           = map_option (Cons (p * 262144 + q * 4096 + r * 64 + s)) (utf8_dec rest)"
proof -
  have 1: "\<not> 0xF0 + p < 0x80" "\<not> 0xF0 + p < 0xC2" "\<not> 0xF0 + p < 0xE0"
          "\<not> 0xF0 + p < 0xF0" "0xF0 + p < 0xF5"
    using assms(1) by linarith+
  have 2: "cont (0x80 + q)" "cont (0x80 + r)" "cont (0x80 + s)"
    using assms(2,3,4) by (simp_all add: cont_def)
  have 3: "(if 0xF0 + p = 0xF0 then 0x90 \<le> 0x80 + q else True) = True"
    using assms(5) by simp
  have 4: "(if 0xF0 + p = 0xF4 then 0x80 + q < 0x90 else True) = True"
    using assms(6) by simp
  show ?thesis
    by (simp only: utf8_dec.simps 1 2 3 4 if_True if_False list.case add_diff_cancel_left' simp_thms)
qed

lemma of_char_char_of_small: "n < 256 \<Longrightarrow> (of_char (char_of n) :: nat) = n"
  by simp

lemma utf8_dec_encode_char:
  assumes "utf8_encode_char c = Inr b"
  shows "utf8_dec (map of_char b @ rest) = map_option (Cons c) (utf8_dec rest)"
proof -
  consider (one) "c < 0x80"
    | (two) "0x80 \<le> c" "c < 0x800"
    | (three) "0x800 \<le> c" "c < 0x10000" "\<not> (0xD800 \<le> c \<and> c \<le> 0xDFFF)"
    | (sur) "0x800 \<le> c" "c < 0x10000" "0xD800 \<le> c \<and> c \<le> 0xDFFF"
    | (four) "0x10000 \<le> c" "c < 0x110000"
    | (big) "0x110000 \<le> c"
    by linarith
  then show ?thesis
  proof cases
    case one
    then have b: "b = [char_of c]" using assms by (simp add: utf8_encode_char_def)
    from one have "(of_char (char_of c) :: nat) = c" by simp
    with one show ?thesis by (simp add: b)
  next
    case two
    then have b: "b = [char_of (0xC0 + c div 64), char_of (0x80 + c mod 64)]"
      using assms by (simp add: utf8_encode_char_def)
    from bound_2 [OF two] have q: "2 \<le> c div 64" "c div 64 < 32" by simp_all
    have r: "c mod 64 < 64" by simp
    from q r have m: "map of_char b = [0xC0 + c div 64, 0x80 + c mod 64]"
      by (simp add: b of_char_char_of_small)
    have "c div 64 * 64 + c mod 64 = c" by simp
    with dec_2_parts [OF q r, of rest] show ?thesis by (simp only: m append.simps)
  next
    case three
    then have b: "b = [char_of (0xE0 + c div 4096), char_of (0x80 + (c div 64) mod 64),
                       char_of (0x80 + c mod 64)]"
      using assms by (auto simp add: utf8_encode_char_def split: if_splits)
    from bound_3 [OF three(2)] have p: "c div 4096 < 16" .
    have q: "(c div 64) mod 64 < 64" and r: "c mod 64 < 64" by simp_all
    from p q r have m: "map of_char b =
        [0xE0 + c div 4096, 0x80 + (c div 64) mod 64, 0x80 + c mod 64]"
      by (simp add: b of_char_char_of_small)
    from dec_3_parts [OF p q r bound_3_E0 [OF three(1)] bound_3_ED [OF three(3)], of rest]
      split_3 [of c]
    show ?thesis by (simp only: m append.simps)
  next
    case sur
    then show ?thesis using assms by (simp add: utf8_encode_char_def)
  next
    case four
    then have b: "b = [char_of (0xF0 + c div 262144), char_of (0x80 + (c div 4096) mod 64),
                       char_of (0x80 + (c div 64) mod 64), char_of (0x80 + c mod 64)]"
      using assms by (simp add: utf8_encode_char_def)
    from bound_4 [OF four(2)] have p: "c div 262144 < 5" .
    have q: "(c div 4096) mod 64 < 64" and r: "(c div 64) mod 64 < 64" and s: "c mod 64 < 64"
      by simp_all
    from p q r s have m: "map of_char b =
        [0xF0 + c div 262144, 0x80 + (c div 4096) mod 64, 0x80 + (c div 64) mod 64,
         0x80 + c mod 64]"
      by (simp add: b of_char_char_of_small)
    from dec_4_parts [OF p q r s bound_4_F0 [OF four(1)] bound_4_F4 [OF four(2)], of rest]
      split_4 [of c]
    show ?thesis by (simp only: m append.simps)
  next
    case big
    then show ?thesis using assms by (simp add: utf8_encode_char_def)
  qed
qed

lemma utf8_dec_encode:
  "utf8_encode t = Inr b \<Longrightarrow> utf8_dec (map of_char b) = Some t"
proof (induction t arbitrary: b)
  case Nil
  then show ?case by simp
next
  case (Cons c t)
  from Cons.prems obtain bc bt where
    bc: "utf8_encode_char c = Inr bc" and bt: "utf8_encode t = Inr bt" and b: "b = bc @ bt"
    by (auto split: sum.splits)
  from utf8_dec_encode_char [OF bc, of "map of_char bt"] Cons.IH [OF bt]
  show ?case by (simp add: b)
qed

lemma utf8_roundtrip: "utf8_encode t = Inr b \<Longrightarrow> utf8_decode b = Inr t"
  by (simp add: utf8_decode_def utf8_dec_encode)

subsection \<open>What the readers compute\<close>

lemma decodeList_decodes:
  "list_all2 (\<lambda>b t. utf8_decode b = Inr t) bs ts
     \<Longrightarrow> decodeList (map Bytes bs) = Inr (map Unicode ts)"
  by (induction rule: list_all2_induct) auto

lemma encodeValues_Unicode_decodes:
  "encodeValues (map Unicode ts) = Inr bs \<Longrightarrow> list_all2 (\<lambda>b t. utf8_decode b = Inr t) bs ts"
  by (induction ts arbitrary: bs) (auto split: sum.splits dest: utf8_roundtrip)

lemma encodeValues_same_Bytes:
  "list_all (same_type (Bytes n)) v \<Longrightarrow> encodeValues v = Inr bs \<Longrightarrow> v = map Bytes bs"
proof (induction v arbitrary: bs)
  case Nil
  then show ?case by simp
next
  case (Cons x v)
  from Cons.prems(1) obtain b where x: "x = Bytes b" by (cases x) auto
  with Cons show ?case by (auto split: sum.splits)
qed

lemma same_Unicode_map:
  "list_all (same_type (Unicode n)) v \<Longrightarrow> \<exists>ts. v = map Unicode ts"
proof (induction v)
  case Nil
  then show ?case by simp
next
  case (Cons x v)
  from Cons.prems obtain t where x: "x = Unicode t" by (cases x) auto
  from Cons obtain ts where "v = map Unicode ts" by auto
  with x have "x # v = map Unicode (t # ts)" by simp
  then show ?case by (rule exI)
qed

lemma hasHeader_map_of:
  "encodeName (lower ucd n) = Inr k \<Longrightarrow>
     hasHeader ucd h n = Inr (map_of (rawHeaders h) k \<noteq> None)"
  by (simp add: hasHeader_def map_of_eq_None_iff)

lemma getRawHeaders_Unicode:
  "latin1_encode (unicode_lower ucd t) = Inr k \<Longrightarrow>
     getRawHeaders ucd h (Unicode t) d =
       decodeValues (case map_of (rawHeaders h) k of
                       None \<Rightarrow> d
                     | Some vs \<Rightarrow> PyList (map Bytes vs))"
  by (simp add: getRawHeaders_def)

lemma setRawHeaders_result:
  assumes "setRawHeaders ucd h n (PyList v) = Inr h'"
  obtains k bs where "encodeName (lower ucd n) = Inr k" and "encodeValues v = Inr bs"
    and "h' = h\<lparr>rawHeaders := AList.update k bs (rawHeaders h)\<rparr>"
  using assms by (auto simp: setRawHeaders_def split: sum.splits)

subsection \<open>C10: no entry with an empty value list\<close>

lemma nonempty_setRawHeaders:
  assumes "nonempty_values h" and "values \<noteq> PyList []"
    and "setRawHeaders ucd h name values = Inr h'"
  shows "nonempty_values h'"
proof (cases "values")
  case (PyList vs)
  with assms(2) have ne: "vs \<noteq> []" by simp
  from assms(3) PyList obtain k bs where
    bs: "encodeValues vs = Inr bs" and
    h': "h' = h\<lparr>rawHeaders := AList.update k bs (rawHeaders h)\<rparr>"
    by (auto simp: setRawHeaders_def split: sum.splits)
  from bs ne have "bs \<noteq> []" using encodeValues_length by fastforce
  with assms(1) show ?thesis
    by (simp add: h' nonempty_values_def list_all_update)
qed (use assms(3) in \<open>simp_all add: setRawHeaders_def\<close>)

lemma nonempty_addRawHeader:
  assumes "nonempty_values h" and "addRawHeader ucd h name val = Inr h'"
  shows "nonempty_values h'"
proof -
  from assms(2) obtain n v where n: "encodeName name = Inr n" and v: "encodeValue val = Inr v"
    by (auto simp: addRawHeader_def split: sum.splits)
  from addRawHeader_result [OF n v, of ucd h] assms show ?thesis
    by (auto simp: nonempty_values_def intro!: list_all_update)
qed

lemma nonempty_removeHeader:
  assumes "nonempty_values h" and "removeHeader ucd h name = Inr h'"
  shows "nonempty_values h'"
  using assms
  by (auto simp: removeHeader_def nonempty_values_def list_all_delete split: sum.splits)

lemma nonempty_step:
  "nonempty_values h \<Longrightarrow> sets_nonempty operation \<Longrightarrow> nonempty_values (step ucd h operation)"
  by (cases operation)
     (auto simp: step_def split: sum.splits
           dest: nonempty_setRawHeaders nonempty_addRawHeader nonempty_removeHeader)

lemma nonempty_run:
  "nonempty_values h \<Longrightarrow> list_all sets_nonempty ops \<Longrightarrow> nonempty_values (run ucd h ops)"
  unfolding run_def
  by (induction ops arbitrary: h) (auto simp: nonempty_step)

lemma nonempty_init_items:
  "nonempty_values h \<Longrightarrow> list_all (\<lambda>(name, values). values \<noteq> []) items
     \<Longrightarrow> init_items ucd h items = Inr h' \<Longrightarrow> nonempty_values h'"
proof (induction items arbitrary: h)
  case Nil
  then show ?case by simp
next
  case (Cons item items)
  obtain name vals where item: "item = (name, vals)" by (cases item)
  from Cons.prems(3) item obtain n bs h1 where
    n: "encodeName name = Inr n" and bs: "encodeValues vals = Inr bs" and
    h1: "setRawHeaders ucd h (Bytes n) (PyList (map Bytes bs)) = Inr h1" and
    rest: "init_items ucd h1 items = Inr h'"
    by (auto split: sum.splits)
  from Cons.prems(2) item have "vals \<noteq> []" by simp
  with bs have "bs \<noteq> []" using encodeValues_length by fastforce
  then have "nonempty_values h1"
    using nonempty_setRawHeaders [OF Cons.prems(1) _ h1] by simp
  with Cons.IH rest Cons.prems(2) show ?case by simp
qed

text \<open>
  C10, as amended. In a store built by the constructor from a mapping whose value lists
  are all non-empty (or from no mapping), and changed by any sequence of
  \<open>setRawHeaders\<close>, \<open>addRawHeader\<close> and \<open>removeHeader\<close> calls in which no
  \<open>setRawHeaders\<close> is given the empty list, every key present maps to a non-empty
  value sequence. \<open>addRawHeader\<close> and \<open>removeHeader\<close> need no condition.
\<close>

theorem nonempty_values_reachable:
  assumes "Headers ucd m = Inr h0"
    and "list_all (\<lambda>(name, values). values \<noteq> []) (case m of None \<Rightarrow> [] | Some items \<Rightarrow> items)"
    and "list_all sets_nonempty ops"
  shows "nonempty_values (run ucd h0 ops)"
proof -
  have e: "nonempty_values \<lparr>rawHeaders = []\<rparr>" by (simp add: nonempty_values_def)
  have "nonempty_values h0"
  proof (cases m)
    case None
    with assms(1) e show ?thesis by (simp add: Headers_def)
  next
    case (Some items)
    with assms(1,2) nonempty_init_items [OF e, of items ucd h0] show ?thesis
      by (simp add: Headers_def)
  qed
  with assms(3) show ?thesis by (simp add: nonempty_run)
qed

text \<open>
  The claim as stated fails: nothing checks for the empty list, so
  \<open>setRawHeaders(b'x', [])\<close> on the empty store, or the constructor on
  \<open>{b'x': []}\<close>, leaves the key \<open>x\<close> with no value.
\<close>

theorem empty_value_list_counterexample:
  "Headers ucd_excerpt None = Inr \<lparr>rawHeaders = []\<rparr>
   \<and> rawHeaders (run ucd_excerpt \<lparr>rawHeaders = []\<rparr> [SetRawHeaders (Bytes ''x'') (PyList [])])
       = [(''x'', [])]
   \<and> Headers ucd_excerpt (Some [(Bytes ''x'', [])]) = Inr \<lparr>rawHeaders = [(''x'', [])]\<rparr>"
  by code_simp

theorem nonempty_values_reachable_witness:
  "Headers ucd_excerpt (Some [(Unicode [0x58], [Bytes ''a''])]) = Inr \<lparr>rawHeaders = [(''x'', [''a''])]\<rparr>
   \<and> list_all sets_nonempty [AddRawHeader (Bytes ''Y'') (Bytes ''b''), SetRawHeaders (Bytes ''x'') (PyList [Bytes ''c'', Bytes ''d'']), RemoveHeader (Bytes ''y'')]
   \<and> nonempty_values (run ucd_excerpt \<lparr>rawHeaders = [(''x'', [''a''])]\<rparr>
        [AddRawHeader (Bytes ''Y'') (Bytes ''b''), SetRawHeaders (Bytes ''x'') (PyList [Bytes ''c'', Bytes ''d'']), RemoveHeader (Bytes ''y'')])
   \<and> rawHeaders (run ucd_excerpt \<lparr>rawHeaders = [(''x'', [''a''])]\<rparr>
        [AddRawHeader (Bytes ''Y'') (Bytes ''b''), SetRawHeaders (Bytes ''x'') (PyList [Bytes ''c'', Bytes ''d''])])
       = [(''x'', [''c'', ''d'']), (''y'', [''b''])]"
proof -
  have a: "Headers ucd_excerpt (Some [(Unicode [0x58], [Bytes ''a''])]) = Inr \<lparr>rawHeaders = [(''x'', [''a''])]\<rparr>"
    by code_simp
  have b: "list_all (\<lambda>(name, values). values \<noteq> []) (case Some [(Unicode [0x58], [Bytes ''a''])] of None \<Rightarrow> [] | Some items \<Rightarrow> items)"
    by simp
  have c: "list_all sets_nonempty [AddRawHeader (Bytes ''Y'') (Bytes ''b''), SetRawHeaders (Bytes ''x'') (PyList [Bytes ''c'', Bytes ''d'']), RemoveHeader (Bytes ''y'')]"
    by simp
  have d: "rawHeaders (run ucd_excerpt \<lparr>rawHeaders = [(''x'', [''a''])]\<rparr>
        [AddRawHeader (Bytes ''Y'') (Bytes ''b''), SetRawHeaders (Bytes ''x'') (PyList [Bytes ''c'', Bytes ''d''])])
       = [(''x'', [''c'', ''d'']), (''y'', [''b''])]"
    by code_simp
  from nonempty_values_reachable [OF a b c] a c d show ?thesis by simp
qed

subsection \<open>\<open>_dashCapitalize\<close> against the rule in the spec's words\<close>

lemma of_char_byte_upper:
  "(of_char (byte_upper c) :: nat) =
     (if 97 \<le> (of_char c :: nat) \<and> (of_char c :: nat) \<le> 122 then of_char c - 32 else of_char c)"
proof (cases "97 \<le> (of_char c :: nat) \<and> (of_char c :: nat) \<le> 122")
  case True
  then have "(of_char c :: nat) - 32 < 256" by linarith
  with True show ?thesis by (simp add: byte_upper_def)
next
  case False
  then show ?thesis by (auto simp add: byte_upper_def)
qed

lemma of_char_byte_lower:
  "(of_char (byte_lower c) :: nat) =
     (if 65 \<le> (of_char c :: nat) \<and> (of_char c :: nat) \<le> 90 then of_char c + 32 else of_char c)"
proof (cases "65 \<le> (of_char c :: nat) \<and> (of_char c :: nat) \<le> 90")
  case True
  then have "(of_char c :: nat) + 32 < 256" by linarith
  with True show ?thesis by (simp add: byte_lower_def)
next
  case False
  then show ?thesis by (auto simp add: byte_lower_def)
qed

lemma char_eqI: "(of_char c :: nat) = of_char d \<Longrightarrow> c = d"
  by simp

lemma byte_upper_idem: "byte_upper (byte_upper c) = byte_upper c"
  by (rule char_eqI) (auto simp add: of_char_byte_upper)

lemma byte_lower_idem: "byte_lower (byte_lower c) = byte_lower c"
  by (rule char_eqI) (auto simp add: of_char_byte_lower)

lemma byte_lower_upper: "byte_lower (byte_upper c) = byte_lower c"
  by (rule char_eqI) (auto simp add: of_char_byte_lower of_char_byte_upper)

lemma byte_upper_lower: "byte_upper (byte_lower c) = byte_upper c"
  by (rule char_eqI) (auto simp add: of_char_byte_lower of_char_byte_upper)

lemma of_char_dash: "(of_char CHR ''-'' :: nat) = 45"
  by simp

lemma byte_upper_dash: "byte_upper c = CHR ''-'' \<longleftrightarrow> c = CHR ''-''"
proof -
  have "byte_upper c = CHR ''-'' \<longleftrightarrow> (of_char (byte_upper c) :: nat) = of_char CHR ''-''"
    by (simp only: of_char_eq_iff)
  also have "\<dots> \<longleftrightarrow> (of_char c :: nat) = of_char CHR ''-''"
    by (auto simp add: of_char_byte_upper)
  also have "\<dots> \<longleftrightarrow> c = CHR ''-''"
    by (simp only: of_char_eq_iff)
  finally show ?thesis .
qed

lemma byte_lower_dash: "byte_lower c = CHR ''-'' \<longleftrightarrow> c = CHR ''-''"
proof -
  have "byte_lower c = CHR ''-'' \<longleftrightarrow> (of_char (byte_lower c) :: nat) = of_char CHR ''-''"
    by (simp only: of_char_eq_iff)
  also have "\<dots> \<longleftrightarrow> (of_char c :: nat) = of_char CHR ''-''"
    by (auto simp add: of_char_byte_lower)
  also have "\<dots> \<longleftrightarrow> c = CHR ''-''"
    by (simp only: of_char_eq_iff)
  finally show ?thesis .
qed

lemma bytes_split_not_Nil: "bytes_split sep cs \<noteq> []"
  by (induction cs) (auto split: list.splits)

lemma bytes_join_Cons_Cons:
  "bytes_join sep ((x # w) # rest) = x # bytes_join sep (w # rest)"
  by (cases rest) simp_all

lemma bytes_join_Nil_Cons:
  "rest \<noteq> [] \<Longrightarrow> bytes_join sep ([] # rest) = sep @ bytes_join sep rest"
  by (cases rest) simp_all

lemma join_capitalize_split:
  "bytes_split CHR ''-'' cs = w # ws \<Longrightarrow>
   bytes_join ''-'' ((if first then bytes_capitalize w else map byte_lower w)
                      # map bytes_capitalize ws)
     = spec_segments first cs"
proof (induction cs arbitrary: first w ws)
  case Nil
  then show ?case by auto
next
  case (Cons c cs)
  obtain w' ws' where sp: "bytes_split CHR ''-'' cs = w' # ws'"
    using bytes_split_not_Nil [of "CHR ''-''" cs] by (cases "bytes_split CHR ''-'' cs") auto
  show ?case
  proof (cases "c = CHR ''-''")
    case True
    with Cons.prems sp have w: "w = []" and ws: "ws = w' # ws'" by auto
    from Cons.IH [OF sp, of True] True show ?thesis
      by (simp add: w ws)
  next
    case False
    with Cons.prems sp have w: "w = c # w'" and ws: "ws = ws'" by auto
    from Cons.IH [OF sp, of False] False show ?thesis
      by (simp add: w ws bytes_join_Cons_Cons)
  qed
qed

lemma dashCapitalize_spec: "dashCapitalize name = spec_dashCapitalize name"
proof -
  obtain w ws where sp: "bytes_split CHR ''-'' name = w # ws"
    using bytes_split_not_Nil [of "CHR ''-''" name]
    by (cases "bytes_split CHR ''-'' name") auto
  from join_capitalize_split [OF sp, of True] show ?thesis
    by (simp add: dashCapitalize_def spec_dashCapitalize_def sp)
qed

lemma spec_segments_idem:
  "spec_segments first (spec_segments first cs) = spec_segments first cs"
  by (induction cs arbitrary: first)
     (auto simp: byte_upper_idem byte_lower_idem byte_upper_dash byte_lower_dash)

lemma bytes_lower_spec_segments:
  "bytes_lower (spec_segments first cs) = bytes_lower cs"
  by (induction cs arbitrary: first)
     (auto simp: bytes_lower_def byte_lower_idem byte_lower_upper)

lemma length_spec_segments: "length (spec_segments first cs) = length cs"
  by (induction cs arbitrary: first) auto

lemma char_of_eq_iff_of_char: "char_of (n::nat) = c \<longleftrightarrow> n mod 256 = of_char c"
proof -
  have "char_of n = c \<longleftrightarrow> (of_char (char_of n) :: nat) = of_char c"
    by (simp only: of_char_eq_iff)
  then show ?thesis by simp
qed

lemma caseMappings_key:
  "map_of caseMappings k = Some c \<Longrightarrow>
     k \<noteq> [] \<and> 97 \<le> (of_char (hd k) :: nat) \<and> (of_char (hd k) :: nat) \<le> 122
     \<and> bytes_lower c = k \<and> bytes_lower k = k"
  unfolding caseMappings_def
  by (auto split: if_splits simp: bytes_lower_def byte_lower_def char_of_eq_iff_of_char)

lemma hd_spec_segments_True:
  "cs \<noteq> [] \<Longrightarrow>
     \<not> (97 \<le> (of_char (hd (spec_segments True cs)) :: nat)
        \<and> (of_char (hd (spec_segments True cs)) :: nat) \<le> 122)"
  by (cases cs) (auto simp: of_char_byte_upper)

lemma caseMappings_spec_dashCapitalize:
  "map_of caseMappings (spec_dashCapitalize n) = None"
proof (cases "map_of caseMappings (spec_dashCapitalize n)")
  case None
  then show ?thesis .
next
  case (Some c)
  from caseMappings_key [OF Some]
  have ne: "spec_segments True n \<noteq> []"
    and lo: "97 \<le> (of_char (hd (spec_segments True n)) :: nat)
             \<and> (of_char (hd (spec_segments True n)) :: nat) \<le> 122"
    by (simp_all add: spec_dashCapitalize_def)
  from ne have "n \<noteq> []" by auto
  from hd_spec_segments_True [OF this] lo show ?thesis by simp
qed

lemma canonicalName_spec:
  "canonicalName k =
     (case map_of caseMappings k of Some c \<Rightarrow> c | None \<Rightarrow> spec_dashCapitalize k)"
  by (simp add: canonicalName_def dashCapitalize_spec split: option.split)

subsection \<open>C4: the canonical capitalization of \<open>getAllRawHeaders\<close>\<close>

text \<open>
  C4. \<open>getAllRawHeaders\<close> yields every stored entry, in the store's order, the values
  untouched and the name replaced by its canonical capitalization: the irregular-name
  table's spelling verbatim when the name is a key of that table, and otherwise the
  name split on \<open>-\<close> with the first character of each segment upper-cased and the
  rest lower-cased, rejoined with \<open>-\<close>. \<open>_canonicalNameCaps\<close> on a byte name is the
  same function. So \<open>content-type\<close> becomes \<open>Content-Type\<close>, \<open>x-forwarded-for\<close>
  becomes \<open>X-Forwarded-For\<close> and \<open>dnt\<close> becomes \<open>DNT\<close>.
\<close>

theorem canonical_capitalization:
  "getAllRawHeaders h =
     map (\<lambda>(k, v).
            ((case map_of caseMappings k of Some c \<Rightarrow> c | None \<Rightarrow> spec_dashCapitalize k), v))
         (rawHeaders h)
   \<and> canonicalNameCaps (Bytes k) =
       Inr (Bytes (case map_of caseMappings k of Some c \<Rightarrow> c | None \<Rightarrow> spec_dashCapitalize k))
   \<and> getAllRawHeaders \<lparr>rawHeaders =
        [(''content-type'', [''text/html'']), (''x-forwarded-for'', [''a'', ''b'']), (''dnt'', [''1''])]\<rparr>
      = [(''Content-Type'', [''text/html'']), (''X-Forwarded-For'', [''a'', ''b'']), (''DNT'', [''1''])]"
proof -
  have a: "getAllRawHeaders h =
     map (\<lambda>(k, v).
            ((case map_of caseMappings k of Some c \<Rightarrow> c | None \<Rightarrow> spec_dashCapitalize k), v))
         (rawHeaders h)"
    by (simp add: getAllRawHeaders_def canonicalName_spec)
  have b: "canonicalNameCaps (Bytes k) =
       Inr (Bytes (case map_of caseMappings k of Some c \<Rightarrow> c | None \<Rightarrow> spec_dashCapitalize k))"
    by (simp add: canonicalNameCaps_def canonicalName_spec)
  have c: "getAllRawHeaders \<lparr>rawHeaders =
        [(''content-type'', [''text/html'']), (''x-forwarded-for'', [''a'', ''b'']), (''dnt'', [''1''])]\<rparr>
      = [(''Content-Type'', [''text/html'']), (''X-Forwarded-For'', [''a'', ''b'']), (''DNT'', [''1''])]"
    by code_simp
  from a b c show ?thesis by simp
qed

subsection \<open>C8: canonicalizing twice\<close>

text \<open>
  C8, as amended. Canonicalizing an already canonical name gives the same string again
  for every name that is not a key of the irregular-name table. For every name the
  canonical form lower-cases to the same storage key as the name, and canonicalizing
  the lower-cased canonical form of a lower-case name gives the canonical form again,
  the table's names included.
\<close>

theorem canonicalName_idempotent:
  "(map_of caseMappings n = None \<longrightarrow> canonicalName (canonicalName n) = canonicalName n)
   \<and> bytes_lower (canonicalName n) = bytes_lower n
   \<and> canonicalName (bytes_lower (canonicalName (bytes_lower n))) = canonicalName (bytes_lower n)"
proof -
  have one: "canonicalName (canonicalName n) = canonicalName n" if "map_of caseMappings n = None"
    using that
    by (simp add: canonicalName_spec caseMappings_spec_dashCapitalize)
       (simp add: spec_dashCapitalize_def spec_segments_idem)
  have two: "bytes_lower (canonicalName m) = bytes_lower m" for m
  proof (cases "map_of caseMappings m")
    case None
    then show ?thesis
      by (simp add: canonicalName_spec spec_dashCapitalize_def bytes_lower_spec_segments)
  next
    case (Some c)
    with caseMappings_key [OF Some] show ?thesis
      by (simp add: canonicalName_spec)
  qed
  have idem_lower: "bytes_lower (bytes_lower m) = bytes_lower m" for m
    by (simp add: bytes_lower_def byte_lower_idem)
  have three: "canonicalName (bytes_lower (canonicalName (bytes_lower n))) = canonicalName (bytes_lower n)"
    by (simp add: two idem_lower)
  from one two three show ?thesis by blast
qed

text \<open>
  The claim as stated fails on the table's names: the table is keyed by the lower-case
  names that \<open>_canonicalNameCaps\<close> is documented to take, so the canonical \<open>DNT\<close> is
  no key of it and falls to the generic rule, which gives \<open>Dnt\<close>; likewise \<open>ETag\<close>
  gives \<open>Etag\<close>.
\<close>

theorem canonicalName_not_idempotent_counterexample:
  "canonicalName ''dnt'' = ''DNT'' \<and> canonicalName (canonicalName ''dnt'') = ''Dnt''
   \<and> canonicalName ''etag'' = ''ETag'' \<and> canonicalName (canonicalName ''etag'') = ''Etag''"
  by code_simp

theorem canonicalName_idempotent_witness:
  "map_of caseMappings ''x-forwarded-for'' = None
   \<and> canonicalName ''x-forwarded-for'' = ''X-Forwarded-For''
   \<and> canonicalName ''X-Forwarded-For'' = ''X-Forwarded-For''
   \<and> bytes_lower ''X-Forwarded-For'' = ''x-forwarded-for''"
proof -
  have a: "map_of caseMappings ''x-forwarded-for'' = None" by code_simp
  have b: "canonicalName ''x-forwarded-for'' = ''X-Forwarded-For''" by code_simp
  have c: "bytes_lower ''x-forwarded-for'' = ''x-forwarded-for''" by code_simp
  from canonicalName_idempotent [of "''x-forwarded-for''"] a b c show ?thesis by simp
qed

subsection \<open>C7: \<open>hasHeader\<close> and the case of letters\<close>

lemma same_letter_byte_lower: "same_letter_byte c d \<Longrightarrow> byte_lower c = byte_lower d"
  by (rule char_eqI) (auto simp: same_letter_byte_def of_char_byte_lower)

lemma same_letter_cp_lower:
  "same_letter_cp c d \<Longrightarrow>
     (if c < 256 then [latin1_lower c] else ucd c) = (if d < 256 then [latin1_lower d] else ucd d)"
  by (auto simp: same_letter_cp_def latin1_capital_def latin1_lower_def)

lemma variant_bytes_lower:
  "list_all2 same_letter_byte a b \<Longrightarrow> bytes_lower a = bytes_lower b"
  unfolding bytes_lower_def
  by (induction rule: list_all2_induct) (auto dest: same_letter_byte_lower)

lemma variant_unicode_lower:
  "list_all2 same_letter_cp a b \<Longrightarrow> unicode_lower ucd a = unicode_lower ucd b"
  unfolding unicode_lower_def
  by (induction rule: list_all2_induct) (auto dest: same_letter_cp_lower [of _ _ ucd])

text \<open>Below U+0100 the lower-case table is not consulted.\<close>

lemma unicode_lower_latin1:
  "list_all (\<lambda>c. c < 256) t \<Longrightarrow> unicode_lower ucd t = map latin1_lower t"
  unfolding unicode_lower_def by (induction t) auto

lemma char_of_latin1_lower:
  assumes "u < 256" and "u < 192 \<or> 222 < u \<or> u = 215"
  shows "char_of (latin1_lower u) = byte_lower (char_of u)"
proof (rule char_eqI)
  from assms(1) have u: "(of_char (char_of u :: char) :: nat) = u" by simp
  from assms have l: "latin1_lower u = (if 65 \<le> u \<and> u \<le> 90 then u + 32 else u)"
    by (auto simp: latin1_lower_def)
  from assms(1) l have "latin1_lower u < 256" by (auto split: if_splits)
  then have "(of_char (char_of (latin1_lower u) :: char) :: nat) = latin1_lower u" by simp
  with u l show "(of_char (char_of (latin1_lower u) :: char) :: nat) = of_char (byte_lower (char_of u))"
    by (simp add: of_char_byte_lower)
qed

lemma mixed_letter_lower:
  "mixed_letter c u \<Longrightarrow> latin1_lower u < 256 \<and> char_of (latin1_lower u) = byte_lower c"
proof -
  assume m: "mixed_letter c u"
  then have u: "u < 256" and r: "u < 192 \<or> 222 < u \<or> u = 215"
    and s: "same_letter_byte c (char_of u)"
    by (simp_all add: mixed_letter_def)
  from u r have "latin1_lower u < 256" by (auto simp: latin1_lower_def)
  moreover from char_of_latin1_lower [OF u r] same_letter_byte_lower [OF s]
  have "char_of (latin1_lower u) = byte_lower c" by simp
  ultimately show ?thesis by simp
qed

lemma variant_mixed_lower:
  "list_all2 mixed_letter a t \<Longrightarrow>
     list_all (\<lambda>c. c < 256) t \<and> list_all (\<lambda>c. c < 256) (map latin1_lower t)
     \<and> map char_of (map latin1_lower t) = bytes_lower a"
proof (induction rule: list_all2_induct)
  case Nil
  then show ?case by (simp add: bytes_lower_def)
next
  case (Cons c a u t)
  from Cons.hyps(1) have "u < 256" by (simp add: mixed_letter_def)
  with mixed_letter_lower [OF Cons.hyps(1)] Cons.IH show ?case
    by (simp add: bytes_lower_def)
qed

lemma variant_mixed_encode:
  assumes "list_all2 mixed_letter a t"
  shows "encodeName (lower ucd (Unicode t)) = encodeName (lower ucd (Bytes a))"
proof -
  from variant_mixed_lower [OF assms]
  have t: "list_all (\<lambda>c. c < 256) t" and l: "list_all (\<lambda>c. c < 256) (map latin1_lower t)"
    and e: "map char_of (map latin1_lower t) = bytes_lower a"
    by simp_all
  from unicode_lower_latin1 [OF t, of ucd] l e show ?thesis
    by (simp add: latin1_encode_def)
qed

lemma case_variant_encode:
  "case_variant n m \<Longrightarrow> encodeName (lower ucd n) = encodeName (lower ucd m)"
proof (cases n; cases m)
  fix a b assume "case_variant n m" "n = Bytes a" "m = Bytes b"
  then show ?thesis using variant_bytes_lower [of a b] by simp
next
  fix a t assume "case_variant n m" "n = Bytes a" "m = Unicode t"
  then show ?thesis using variant_mixed_encode [of a t ucd] by simp
next
  fix t a assume "case_variant n m" "n = Unicode t" "m = Bytes a"
  then show ?thesis using variant_mixed_encode [of a t ucd] by simp
next
  fix s t assume "case_variant n m" "n = Unicode s" "m = Unicode t"
  then show ?thesis using variant_unicode_lower [of s t ucd] by simp
qed

text \<open>
  C7, as amended. In every store, \<open>hasHeader\<close> gives the same answer (the same truth
  value, or the same error for a text name that cannot be encoded) for two names that
  differ only in the case of ASCII letters, whether both are bytes, both text, or one
  of each, provided that in a comparison of a byte name with a text name the text holds
  no Latin-1 capital above U+007F; two text names agree also when they differ in the
  case of Latin-1 letters. \<open>Content-Type\<close>, \<open>content-type\<close> and \<open>CONTENT-TYPE\<close>
  agree, as bytes and as text. The answer is no constant: for a byte name it tells
  whether the name, its ASCII letters lower-cased, is a key of the store.
\<close>

theorem hasHeader_case_invariant:
  assumes "case_variant n m"
  shows "hasHeader ucd h n = hasHeader ucd h m
       \<and> hasHeader ucd h (Bytes a) = Inr (bytes_lower a \<in> set (map fst (rawHeaders h)))"
proof -
  from assms have "encodeName (lower ucd n) = encodeName (lower ucd m)"
    by (rule case_variant_encode)
  then show ?thesis
    by (simp add: hasHeader_def)
qed

text \<open>
  The claim as stated fails on the names with a Latin-1 letter above U+007F: a byte name
  is lower-cased by \<open>bytes.lower\<close>, which changes ASCII letters only, a text name by
  \<open>str.lower\<close>. On the store that \<open>setRawHeaders(u'\xc9', [b'1'])\<close> builds, the key
  is \<open>b'\xe9'\<close>: \<open>hasHeader(b'\xe9')\<close> and \<open>hasHeader(u'\xc9')\<close> are true and
  \<open>hasHeader(b'\xc9')\<close> is false.
\<close>

theorem hasHeader_case_invariant_counterexample:
  "setRawHeaders ucd_excerpt \<lparr>rawHeaders = []\<rparr> (Unicode [0xC9]) (PyList [Bytes ''1''])
     = Inr \<lparr>rawHeaders = [([CHR 0xE9], [''1''])]\<rparr>
   \<and> hasHeader ucd_excerpt \<lparr>rawHeaders = [([CHR 0xE9], [''1''])]\<rparr> (Bytes [CHR 0xE9]) = Inr True
   \<and> hasHeader ucd_excerpt \<lparr>rawHeaders = [([CHR 0xE9], [''1''])]\<rparr> (Unicode [0xC9]) = Inr True
   \<and> hasHeader ucd_excerpt \<lparr>rawHeaders = [([CHR 0xE9], [''1''])]\<rparr> (Bytes [CHR 0xC9]) = Inr False"
  by code_simp

theorem hasHeader_case_invariant_witness:
  "case_variant (Bytes ''Content-Type'') (Bytes ''content-type'')
   \<and> case_variant (Bytes ''Content-Type'') (Bytes ''CONTENT-TYPE'')
   \<and> case_variant (Bytes ''Content-Type'')
        (Unicode [0x43, 0x4F, 0x4E, 0x54, 0x45, 0x4E, 0x54, 0x2D, 0x74, 0x79, 0x70, 0x65])
   \<and> case_variant (Unicode [0xC9, 0x54, 0xC9]) (Unicode [0xE9, 0x74, 0xC9])
   \<and> hasHeader ucd_excerpt \<lparr>rawHeaders = [(''content-type'', [''text/html''])]\<rparr> (Bytes ''Content-Type'') = Inr True
   \<and> hasHeader ucd_excerpt \<lparr>rawHeaders = [(''content-type'', [''text/html''])]\<rparr> (Bytes ''content-type'') = Inr True
   \<and> hasHeader ucd_excerpt \<lparr>rawHeaders = [(''content-type'', [''text/html''])]\<rparr> (Bytes ''CONTENT-TYPE'') = Inr True
   \<and> hasHeader ucd_excerpt \<lparr>rawHeaders = [(''content-type'', [''text/html''])]\<rparr>
        (Unicode [0x43, 0x4F, 0x4E, 0x54, 0x45, 0x4E, 0x54, 0x2D, 0x74, 0x79, 0x70, 0x65]) = Inr True
   \<and> hasHeader ucd_excerpt \<lparr>rawHeaders = [(''content-type'', [''text/html''])]\<rparr> (Unicode [0xC9, 0x54, 0xC9]) = Inr False
   \<and> hasHeader ucd_excerpt \<lparr>rawHeaders = [(''content-type'', [''text/html''])]\<rparr> (Unicode [0xE9, 0x74, 0xC9]) = Inr False"
proof -
  let ?h = "\<lparr>rawHeaders = [(''content-type'', [''text/html''])]\<rparr>"
  let ?t = "Unicode [0x43, 0x4F, 0x4E, 0x54, 0x45, 0x4E, 0x54, 0x2D, 0x74, 0x79, 0x70, 0x65]"
  have a: "case_variant (Bytes ''Content-Type'') (Bytes ''content-type'')" by code_simp
  have b: "case_variant (Bytes ''Content-Type'') (Bytes ''CONTENT-TYPE'')" by code_simp
  have m: "case_variant (Bytes ''Content-Type'') ?t" by code_simp
  have c: "case_variant (Unicode [0xC9, 0x54, 0xC9]) (Unicode [0xE9, 0x74, 0xC9])" by code_simp
  have d: "hasHeader ucd_excerpt ?h (Bytes ''Content-Type'') = Inr True" by code_simp
  have e: "hasHeader ucd_excerpt ?h (Unicode [0xC9, 0x54, 0xC9]) = Inr False" by code_simp
  from hasHeader_case_invariant [OF a, of ucd_excerpt ?h, THEN conjunct1]
       hasHeader_case_invariant [OF b, of ucd_excerpt ?h, THEN conjunct1]
       hasHeader_case_invariant [OF m, of ucd_excerpt ?h, THEN conjunct1]
       hasHeader_case_invariant [OF c, of ucd_excerpt ?h, THEN conjunct1]
       a b m c d e
  show ?thesis by simp
qed

subsection \<open>C1: \<open>setRawHeaders\<close> followed by \<open>getRawHeaders\<close>\<close>

text \<open>
  C1, as amended. When \<open>setRawHeaders(n, v)\<close> succeeds, \<open>getRawHeaders(n)\<close> on the
  new store returns \<open>v\<close> itself whenever every element of \<open>v\<close> has the type of \<open>n\<close>
  (bytes under a byte name, text under a text name, through the UTF-8 round trip). In
  general a byte name returns the encoded values, text elements as their UTF-8 bytes,
  and a text name returns the decoding of the encoded values, which raises when \<open>v\<close>
  holds a byte string that is not valid UTF-8.
\<close>

theorem setRawHeaders_getRawHeaders:
  assumes "setRawHeaders ucd h n (PyList v) = Inr h'"
  shows "(list_all (same_type n) v \<longrightarrow> getRawHeaders ucd h' n d = Inr (PyList v))
    \<and> (\<exists>bs. encodeValues v = Inr bs
          \<and> getRawHeaders ucd h' n d =
              (case n of
                 Bytes _ \<Rightarrow> Inr (PyList (map Bytes bs))
               | Unicode _ \<Rightarrow> decodeValues (PyList (map Bytes bs))))"
proof -
  from assms obtain k bs where k: "encodeName (lower ucd n) = Inr k"
    and bs: "encodeValues v = Inr bs"
    and h': "h' = h\<lparr>rawHeaders := AList.update k bs (rawHeaders h)\<rparr>"
    by (rule setRawHeaders_result)
  have look: "map_of (rawHeaders h') k = Some bs"
    by (simp add: h' update_conv')
  show ?thesis
  proof (cases n)
    case (Bytes b)
    with k have kb: "k = bytes_lower b" by simp
    have g: "getRawHeaders ucd h' n d = Inr (PyList (map Bytes bs))"
      using look by (simp add: Bytes getRawHeaders_Bytes kb)
    have "list_all (same_type n) v \<Longrightarrow> v = map Bytes bs"
      using bs Bytes encodeValues_same_Bytes by blast
    with g bs Bytes show ?thesis by auto
  next
    case (Unicode t)
    with k have kt: "latin1_encode (unicode_lower ucd t) = Inr k" by simp
    have g: "getRawHeaders ucd h' n d = decodeValues (PyList (map Bytes bs))"
      using look by (simp add: Unicode getRawHeaders_Unicode [OF kt])
    have "getRawHeaders ucd h' n d = Inr (PyList v)" if "list_all (same_type n) v"
    proof -
      from that Unicode obtain ts where v: "v = map Unicode ts"
        using same_Unicode_map by blast
      from bs v have "list_all2 (\<lambda>b t. utf8_decode b = Inr t) bs ts"
        using encodeValues_Unicode_decodes by blast
      then have "decodeList (map Bytes bs) = Inr (map Unicode ts)"
        by (rule decodeList_decodes)
      with g v show ?thesis by simp
    qed
    with g bs Unicode show ?thesis by auto
  qed
qed

text \<open>
  The claim as stated fails for a text name and a byte value that is not UTF-8: the
  value is stored untouched, and reading it back under the text name raises
  \<open>UnicodeDecodeError\<close> instead of returning a sequence.
\<close>

theorem setRawHeaders_getRawHeaders_counterexample:
  "setRawHeaders ucd_excerpt \<lparr>rawHeaders = []\<rparr> (Unicode [0x78]) (PyList [Bytes [CHR 0xFF]])
     = Inr \<lparr>rawHeaders = [(''x'', [[CHR 0xFF]])]\<rparr>
   \<and> getRawHeaders ucd_excerpt \<lparr>rawHeaders = [(''x'', [[CHR 0xFF]])]\<rparr> (Unicode [0x78]) PyNone
     = Inl UnicodeDecodeError"
  by code_simp


theorem setRawHeaders_getRawHeaders_witness:
  "setRawHeaders ucd_excerpt \<lparr>rawHeaders = [(''a'', [''1''])]\<rparr> (Unicode [0x58, 0x2D, 0xC9])
       (PyList [Unicode [0x20AC, 0x41], Unicode [0x1F600]])
     = Inr \<lparr>rawHeaders = [(''a'', [''1'']),
              ([CHR ''x'', CHR ''-'', CHR 0xE9],
               [[CHR 0xE2, CHR 0x82, CHR 0xAC, CHR ''A''], [CHR 0xF0, CHR 0x9F, CHR 0x98, CHR 0x80]])]\<rparr>
   \<and> list_all (same_type (Unicode [0x58, 0x2D, 0xC9])) [Unicode [0x20AC, 0x41], Unicode [0x1F600]]
   \<and> getRawHeaders ucd_excerpt
        \<lparr>rawHeaders = [(''a'', [''1'']),
              ([CHR ''x'', CHR ''-'', CHR 0xE9],
               [[CHR 0xE2, CHR 0x82, CHR 0xAC, CHR ''A''], [CHR 0xF0, CHR 0x9F, CHR 0x98, CHR 0x80]])]\<rparr>
        (Unicode [0x58, 0x2D, 0xC9]) PyNone
     = Inr (PyList [Unicode [0x20AC, 0x41], Unicode [0x1F600]])"
proof -
  have a: "setRawHeaders ucd_excerpt \<lparr>rawHeaders = [(''a'', [''1''])]\<rparr> (Unicode [0x58, 0x2D, 0xC9])
       (PyList [Unicode [0x20AC, 0x41], Unicode [0x1F600]])
     = Inr \<lparr>rawHeaders = [(''a'', [''1'']),
              ([CHR ''x'', CHR ''-'', CHR 0xE9],
               [[CHR 0xE2, CHR 0x82, CHR 0xAC, CHR ''A''], [CHR 0xF0, CHR 0x9F, CHR 0x98, CHR 0x80]])]\<rparr>"
    by (simp add: setRawHeaders_def unicode_lower_def latin1_lower_def latin1_encode_def
          utf8_encode_char_def char_of_eq_iff_of_char)
  have b: "list_all (same_type (Unicode [0x58, 0x2D, 0xC9])) [Unicode [0x20AC, 0x41], Unicode [0x1F600]]"
    by simp
  from setRawHeaders_getRawHeaders [OF a, of PyNone, THEN conjunct1, rule_format, OF b]
  have c: "getRawHeaders ucd_excerpt
        \<lparr>rawHeaders = [(''a'', [''1'']),
              ([CHR ''x'', CHR ''-'', CHR 0xE9],
               [[CHR 0xE2, CHR 0x82, CHR 0xAC, CHR ''A''], [CHR 0xF0, CHR 0x9F, CHR 0x98, CHR 0x80]])]\<rparr>
        (Unicode [0x58, 0x2D, 0xC9]) PyNone
     = Inr (PyList [Unicode [0x20AC, 0x41], Unicode [0x1F600]])" .
  from a b c show ?thesis by blast
qed

subsection \<open>C9: the default of \<open>getRawHeaders\<close>\<close>

text \<open>
  Where \<open>getRawHeaders(n, d)\<close> does what its docstring says. For a name absent from
  the store it returns \<open>d\<close> itself when \<open>n\<close> is a byte string, and when \<open>n\<close> is text
  and \<open>d\<close> is not a list (\<open>None\<close>, a string, a tuple). For a name present in the
  store the stored sequence is returned as bytes under a byte name and, where the
  stored values decode as UTF-8, as text under a text name. The third part is the path
  that departs from it: under a text name a default that is a list of byte strings
  comes back decoded.
\<close>

lemma getRawHeaders_cases:
  "(map_of (rawHeaders h) (bytes_lower b) = None
      \<longrightarrow> getRawHeaders ucd h (Bytes b) d = Inr d)
   \<and> (latin1_encode (unicode_lower ucd t) = Inr k \<and> map_of (rawHeaders h) k = None
      \<longrightarrow> getRawHeaders ucd h (Unicode t) PyNone = Inr PyNone
          \<and> getRawHeaders ucd h (Unicode t) (PyStr s) = Inr (PyStr s)
          \<and> getRawHeaders ucd h (Unicode t) (PyTuple xs) = Inr (PyTuple xs))
   \<and> (latin1_encode (unicode_lower ucd t) = Inr k \<and> map_of (rawHeaders h) k = None
        \<and> list_all2 (\<lambda>x u. utf8_decode x = Inr u) ys us
      \<longrightarrow> getRawHeaders ucd h (Unicode t) (PyList (map Bytes ys)) = Inr (PyList (map Unicode us)))
   \<and> (map_of (rawHeaders h) (bytes_lower b) = Some vs
      \<longrightarrow> getRawHeaders ucd h (Bytes b) d = Inr (PyList (map Bytes vs)))
   \<and> (latin1_encode (unicode_lower ucd t) = Inr k \<and> map_of (rawHeaders h) k = Some vs
        \<and> list_all2 (\<lambda>x u. utf8_decode x = Inr u) vs ts
      \<longrightarrow> getRawHeaders ucd h (Unicode t) d = Inr (PyList (map Unicode ts)))"
proof -
  have absent_bytes: "getRawHeaders ucd h (Bytes b) d = Inr d"
    if "map_of (rawHeaders h) (bytes_lower b) = None"
    using that by (simp add: getRawHeaders_Bytes)
  have present_bytes: "getRawHeaders ucd h (Bytes b) d = Inr (PyList (map Bytes vs))"
    if "map_of (rawHeaders h) (bytes_lower b) = Some vs"
    using that by (simp add: getRawHeaders_Bytes)
  have absent_text: "getRawHeaders ucd h (Unicode t) d' = decodeValues d'"
    if "latin1_encode (unicode_lower ucd t) = Inr k" and "map_of (rawHeaders h) k = None" for d'
    using that by (simp add: getRawHeaders_Unicode)
  have present_text: "getRawHeaders ucd h (Unicode t) d = decodeValues (PyList (map Bytes vs))"
    if "latin1_encode (unicode_lower ucd t) = Inr k" and "map_of (rawHeaders h) k = Some vs"
    using that by (simp add: getRawHeaders_Unicode)
  show ?thesis
    using absent_bytes present_bytes
    by (auto simp: absent_text present_text decodeList_decodes)
qed

lemma getRawHeaders_cases_example:
  "getRawHeaders ucd_excerpt \<lparr>rawHeaders = [(''x'', [''a'', [CHR 0xC3, CHR 0xA9]])]\<rparr>
      (Bytes ''Y'') (PyList [Bytes ''d'']) = Inr (PyList [Bytes ''d''])
   \<and> getRawHeaders ucd_excerpt \<lparr>rawHeaders = [(''x'', [''a'', [CHR 0xC3, CHR 0xA9]])]\<rparr>
      (Unicode [0x59]) PyNone = Inr PyNone
   \<and> getRawHeaders ucd_excerpt \<lparr>rawHeaders = [(''x'', [''a'', [CHR 0xC3, CHR 0xA9]])]\<rparr>
      (Unicode [0x59]) (PyList (map Bytes [''d''])) = Inr (PyList (map Unicode [[0x64]]))
   \<and> getRawHeaders ucd_excerpt \<lparr>rawHeaders = [(''x'', [''a'', [CHR 0xC3, CHR 0xA9]])]\<rparr>
      (Bytes ''X'') PyNone = Inr (PyList (map Bytes [''a'', [CHR 0xC3, CHR 0xA9]]))
   \<and> getRawHeaders ucd_excerpt \<lparr>rawHeaders = [(''x'', [''a'', [CHR 0xC3, CHR 0xA9]])]\<rparr>
      (Unicode [0x58]) PyNone = Inr (PyList (map Unicode [[0x61], [0xE9]]))"
proof -
  let ?h = "\<lparr>rawHeaders = [(''x'', [''a'', [CHR 0xC3, CHR 0xA9]])]\<rparr>"
  have ky: "latin1_encode (unicode_lower ucd_excerpt [0x59]) = Inr ''y''" by code_simp
  have kx: "latin1_encode (unicode_lower ucd_excerpt [0x58]) = Inr ''x''" by code_simp
  have bylow: "bytes_lower ''Y'' = ''y''" and bx: "bytes_lower ''X'' = ''x''" by code_simp+
  have ay: "map_of (rawHeaders ?h) ''y'' = None" by simp
  have ax: "map_of (rawHeaders ?h) ''x'' = Some [''a'', [CHR 0xC3, CHR 0xA9]]" by simp
  have dd: "list_all2 (\<lambda>x u. utf8_decode x = Inr u) [''d''] [[0x64]]" by code_simp
  have dv: "list_all2 (\<lambda>x u. utf8_decode x = Inr u) [''a'', [CHR 0xC3, CHR 0xA9]] [[0x61], [0xE9]]"
    by code_simp
  note inst1 = getRawHeaders_cases [of ?h "''Y''" ucd_excerpt "PyList [Bytes ''d'']" "[0x59]" "''y''"]
  note inst2 = getRawHeaders_cases [of ?h "''X''" ucd_excerpt PyNone "[0x58]" "''x''" _ _ _ _
      "[''a'', [CHR 0xC3, CHR 0xA9]]" "[[0x61], [0xE9]]"]
  have 1: "getRawHeaders ucd_excerpt ?h (Bytes ''Y'') (PyList [Bytes ''d'']) = Inr (PyList [Bytes ''d''])"
    using inst1 ay by (simp only: bylow)
  have 2: "getRawHeaders ucd_excerpt ?h (Unicode [0x59]) PyNone = Inr PyNone"
    using inst1 ky ay by blast
  have 3: "getRawHeaders ucd_excerpt ?h (Unicode [0x59]) (PyList (map Bytes [''d'']))
             = Inr (PyList (map Unicode [[0x64]]))"
    using getRawHeaders_cases [of ?h "''Y''" ucd_excerpt "PyList [Bytes ''d'']" "[0x59]" "''y''"
        _ _ "[''d'']" "[[0x64]]"] ky ay dd by blast
  have 4: "getRawHeaders ucd_excerpt ?h (Bytes ''X'') PyNone
             = Inr (PyList (map Bytes [''a'', [CHR 0xC3, CHR 0xA9]]))"
    using inst2 ax by (simp only: bx)
  have 5: "getRawHeaders ucd_excerpt ?h (Unicode [0x58]) PyNone
             = Inr (PyList (map Unicode [[0x61], [0xE9]]))"
    using inst2 kx ax dv by blast
  from 1 2 3 4 5 show ?thesis by blast
qed

text \<open>
  C9 at a text name and a list default. The docstring calls \<open>default\<close> the value to
  return if no header with the given name exists, and the byte path returns it
  untouched. Under a text name the default goes through \<open>_decodeValues\<close> with the
  stored values, whose type check lets through only what is not a list: on the empty
  store \<open>getRawHeaders(u'x', [b'a'])\<close> returns a new list \<open>['a']\<close> of text instead of
  the list given, \<open>getRawHeaders(u'x', [b'\xff'])\<close> raises \<open>UnicodeDecodeError\<close> and
  \<open>getRawHeaders(u'x', [u'a'])\<close> raises \<open>AttributeError\<close>, while the same defaults
  under the byte name \<open>b'x'\<close>, and a tuple under the text name, come back unchanged.
\<close>

theorem getRawHeaders_list_default_decoded:
  "getRawHeaders ucd_excerpt \<lparr>rawHeaders = []\<rparr> (Unicode [0x78]) (PyList [Bytes ''a''])
     = Inr (PyList [Unicode [0x61]])
   \<and> getRawHeaders ucd_excerpt \<lparr>rawHeaders = []\<rparr> (Unicode [0x78]) (PyList [Bytes [CHR 0xFF]])
     = Inl UnicodeDecodeError
   \<and> getRawHeaders ucd_excerpt \<lparr>rawHeaders = []\<rparr> (Unicode [0x78]) (PyList [Unicode [0x61]])
     = Inl AttributeError
   \<and> getRawHeaders ucd_excerpt \<lparr>rawHeaders = []\<rparr> (Bytes ''x'') (PyList [Bytes ''a''])
     = Inr (PyList [Bytes ''a''])
   \<and> getRawHeaders ucd_excerpt \<lparr>rawHeaders = []\<rparr> (Bytes ''x'') (PyList [Bytes [CHR 0xFF]])
     = Inr (PyList [Bytes [CHR 0xFF]])
   \<and> getRawHeaders ucd_excerpt \<lparr>rawHeaders = []\<rparr> (Bytes ''x'') (PyList [Unicode [0x61]])
     = Inr (PyList [Unicode [0x61]])
   \<and> getRawHeaders ucd_excerpt \<lparr>rawHeaders = []\<rparr> (Unicode [0x78]) (PyTuple [Bytes ''a''])
     = Inr (PyTuple [Bytes ''a''])"
  by code_simp

subsection \<open>C3: reading a key through \<open>_DictHeaders\<close>\<close>

lemma list_all2_last:
  "list_all2 P xs ys \<Longrightarrow> xs \<noteq> [] \<Longrightarrow> P (last xs) (last ys)"
  by (induction rule: list_all2_induct) (auto simp: list_all2_Nil)

text \<open>
  C3, as amended. Reading a key through the view fails with \<open>KeyError\<close> when the
  lower-cased key is absent from the store. When it is present with a non-empty value
  sequence, a byte key returns the last stored value, and a text key, provided the
  stored values decode as UTF-8, returns the decoding of the last stored value.
\<close>

theorem DictHeaders_getitem_last:
  "(map_of (rawHeaders h) (bytes_lower b) = None
      \<longrightarrow> DictHeaders_getitem ucd h (Bytes b) = Inl KeyError)
   \<and> (map_of (rawHeaders h) (bytes_lower b) = Some vs \<and> vs \<noteq> []
      \<longrightarrow> DictHeaders_getitem ucd h (Bytes b) = Inr (Bytes (last vs)))
   \<and> (latin1_encode (unicode_lower ucd t) = Inr k \<and> map_of (rawHeaders h) k = None
      \<longrightarrow> DictHeaders_getitem ucd h (Unicode t) = Inl KeyError)
   \<and> (latin1_encode (unicode_lower ucd t) = Inr k \<and> map_of (rawHeaders h) k = Some vs
        \<and> vs \<noteq> [] \<and> list_all2 (\<lambda>x u. utf8_decode x = Inr u) vs ts
      \<longrightarrow> DictHeaders_getitem ucd h (Unicode t) = Inr (Unicode (last ts))
          \<and> utf8_decode (last vs) = Inr (last ts))"
proof -
  have hb: "hasHeader ucd h (Bytes b) = Inr (map_of (rawHeaders h) (bytes_lower b) \<noteq> None)"
    by (simp add: hasHeader_map_of)
  have ht: "hasHeader ucd h (Unicode t) = Inr (map_of (rawHeaders h) k \<noteq> None)"
    if "latin1_encode (unicode_lower ucd t) = Inr k"
    using that by (simp add: hasHeader_map_of)
  have 1: "DictHeaders_getitem ucd h (Bytes b) = Inl KeyError"
    if "map_of (rawHeaders h) (bytes_lower b) = None"
    using that by (simp add: DictHeaders_getitem_def hb)
  have 2: "DictHeaders_getitem ucd h (Bytes b) = Inr (Bytes (last vs))"
    if "map_of (rawHeaders h) (bytes_lower b) = Some vs" and "vs \<noteq> []"
    using that by (simp add: DictHeaders_getitem_def hb getRawHeaders_Bytes last_map)
  have 3: "DictHeaders_getitem ucd h (Unicode t) = Inl KeyError"
    if "latin1_encode (unicode_lower ucd t) = Inr k" and "map_of (rawHeaders h) k = None"
    using that by (simp add: DictHeaders_getitem_def ht)
  have 4: "DictHeaders_getitem ucd h (Unicode t) = Inr (Unicode (last ts))
           \<and> utf8_decode (last vs) = Inr (last ts)"
    if k: "latin1_encode (unicode_lower ucd t) = Inr k" and v: "map_of (rawHeaders h) k = Some vs"
      and ne: "vs \<noteq> []" and dec: "list_all2 (\<lambda>x u. utf8_decode x = Inr u) vs ts"
  proof -
    from dec ne have tne: "ts \<noteq> []" by auto
    from dec have "decodeList (map Bytes vs) = Inr (map Unicode ts)"
      by (rule decodeList_decodes)
    then have "getRawHeaders ucd h (Unicode t) PyNone = Inr (PyList (map Unicode ts))"
      using v by (simp add: getRawHeaders_Unicode [OF k])
    with v tne have "DictHeaders_getitem ucd h (Unicode t) = Inr (Unicode (last ts))"
      by (simp add: DictHeaders_getitem_def ht [OF k] last_map)
    moreover from list_all2_last [OF dec ne] have "utf8_decode (last vs) = Inr (last ts)" .
    ultimately show ?thesis by simp
  qed
  from 1 2 3 4 show ?thesis by blast
qed

text \<open>
  The claim as stated fails in two store states: a key present with the empty
  sequence, which \<open>setRawHeaders(b'x', [])\<close> produces, raises \<open>IndexError\<close> from
  \<open>[-1]\<close>; and under a text key \<open>getRawHeaders\<close> decodes every stored value before
  the last is taken, so one value that is not UTF-8 raises even when the last one is
  fine.
\<close>

theorem DictHeaders_getitem_counterexample:
  "DictHeaders_getitem ucd_excerpt \<lparr>rawHeaders = [(''x'', [])]\<rparr> (Bytes ''x'') = Inl IndexError
   \<and> DictHeaders_getitem ucd_excerpt \<lparr>rawHeaders = [(''x'', [[CHR 0xFF], ''b''])]\<rparr> (Unicode [0x78])
       = Inl UnicodeDecodeError"
  by code_simp

theorem DictHeaders_getitem_last_witness:
  "DictHeaders_getitem ucd_excerpt \<lparr>rawHeaders = [(''x'', [''a'', ''b''])]\<rparr> (Bytes ''Y'') = Inl KeyError
   \<and> DictHeaders_getitem ucd_excerpt \<lparr>rawHeaders = [(''x'', [''a'', ''b''])]\<rparr> (Bytes ''X'') = Inr (Bytes ''b'')
   \<and> DictHeaders_getitem ucd_excerpt \<lparr>rawHeaders = [(''x'', [''a'', ''b''])]\<rparr> (Unicode [0x59]) = Inl KeyError
   \<and> DictHeaders_getitem ucd_excerpt \<lparr>rawHeaders = [(''x'', [''a'', ''b''])]\<rparr> (Unicode [0x58])
       = Inr (Unicode [0x62])"
proof -
  let ?h = "\<lparr>rawHeaders = [(''x'', [''a'', ''b''])]\<rparr>"
  have ky: "latin1_encode (unicode_lower ucd_excerpt [0x59]) = Inr ''y''" by code_simp
  have kx: "latin1_encode (unicode_lower ucd_excerpt [0x58]) = Inr ''x''" by code_simp
  have bylow: "bytes_lower ''Y'' = ''y''" and bx: "bytes_lower ''X'' = ''x''" by code_simp+
  have ay: "map_of (rawHeaders ?h) ''y'' = None" by simp
  have ax: "map_of (rawHeaders ?h) ''x'' = Some [''a'', ''b'']" by simp
  have ne: "[''a'', ''b''] \<noteq> ([] :: bytes list)" by simp
  have dv: "list_all2 (\<lambda>x u. utf8_decode x = Inr u) [''a'', ''b''] [[0x61], [0x62]]"
    by code_simp
  note inst1 = DictHeaders_getitem_last [of ?h "''Y''" ucd_excerpt _ "[0x59]" "''y''"]
  note inst2 = DictHeaders_getitem_last [of ?h "''X''" ucd_excerpt "[''a'', ''b'']" "[0x58]" "''x''"
      "[[0x61], [0x62]]"]
  have 1: "DictHeaders_getitem ucd_excerpt ?h (Bytes ''Y'') = Inl KeyError"
    using inst1 ay unfolding bylow by blast
  have 2: "DictHeaders_getitem ucd_excerpt ?h (Bytes ''X'') = Inr (Bytes (last [''a'', ''b'']))"
    using inst2 ax ne unfolding bx by blast
  have 3: "DictHeaders_getitem ucd_excerpt ?h (Unicode [0x59]) = Inl KeyError"
    using inst1 ky ay by blast
  have 4: "DictHeaders_getitem ucd_excerpt ?h (Unicode [0x58]) = Inr (Unicode (last [[0x61], [0x62]]))"
    using inst2 kx ax ne dv by blast
  from 1 2 3 4 show ?thesis by simp
qed

subsection \<open>C6: equality of stores\<close>

lemma cmp_zero: "cmp a b = 0 \<longleftrightarrow> a = b"
  by (auto simp: cmp_def)

lemma distinct_keys_distinct: "distinct (map fst xs) \<Longrightarrow> distinct xs"
  by (simp add: distinct_map)

lemma sort_eq_iff_set:
  fixes xs ys :: "('a::linorder) list"
  assumes "distinct xs" and "distinct ys"
  shows "sort xs = sort ys \<longleftrightarrow> set xs = set ys"
proof
  assume "sort xs = sort ys"
  then have "set (sort xs) = set (sort ys)" by simp
  then show "set xs = set ys" by simp
next
  assume "set xs = set ys"
  with assms show "sort xs = sort ys"
    by (intro sorted_distinct_set_unique) simp_all
qed

lemma dict_keys_distinct_setRawHeaders:
  "dict_keys_distinct h \<Longrightarrow> setRawHeaders ucd h n v = Inr h' \<Longrightarrow> dict_keys_distinct h'"
  by (auto simp: setRawHeaders_def dict_keys_distinct_def distinct_update
           split: pyval.splits sum.splits)

lemma dict_keys_distinct_removeHeader:
  "dict_keys_distinct h \<Longrightarrow> removeHeader ucd h n = Inr h' \<Longrightarrow> dict_keys_distinct h'"
  by (auto simp: removeHeader_def dict_keys_distinct_def distinct_delete split: sum.splits)

lemma dict_keys_distinct_addRawHeader:
  assumes "dict_keys_distinct h" and "addRawHeader ucd h name val = Inr h'"
  shows "dict_keys_distinct h'"
proof -
  from assms(2) obtain n v where n: "encodeName name = Inr n" and v: "encodeValue val = Inr v"
    by (auto simp: addRawHeader_def split: sum.splits)
  from addRawHeader_result [OF n v, of ucd h] assms show ?thesis
    by (auto simp: dict_keys_distinct_def distinct_update)
qed

lemma dict_keys_distinct_step:
  "dict_keys_distinct h \<Longrightarrow> dict_keys_distinct (step ucd h operation)"
  by (cases operation)
     (auto simp: step_def split: sum.splits
           dest: dict_keys_distinct_setRawHeaders dict_keys_distinct_addRawHeader
                 dict_keys_distinct_removeHeader)

lemma dict_keys_distinct_run:
  "dict_keys_distinct h \<Longrightarrow> dict_keys_distinct (run ucd h ops)"
  unfolding run_def
  by (induction ops arbitrary: h) (auto simp: dict_keys_distinct_step)

lemma dict_keys_distinct_init_items:
  "dict_keys_distinct h \<Longrightarrow> init_items ucd h items = Inr h' \<Longrightarrow> dict_keys_distinct h'"
proof (induction items arbitrary: h)
  case Nil
  then show ?case by simp
next
  case (Cons item items)
  obtain name vals where item: "item = (name, vals)" by (cases item)
  from Cons.prems(2) item obtain n bs h1 where
    h1: "setRawHeaders ucd h (Bytes n) (PyList (map Bytes bs)) = Inr h1" and
    rest: "init_items ucd h1 items = Inr h'"
    by (auto split: sum.splits)
  from dict_keys_distinct_setRawHeaders [OF Cons.prems(1) h1] Cons.IH rest show ?case by simp
qed

lemma dict_keys_distinct_Headers:
  "Headers ucd m = Inr h \<Longrightarrow> dict_keys_distinct h"
proof (cases m)
  case None
  assume "Headers ucd m = Inr h"
  with None show ?thesis by (auto simp: Headers_def dict_keys_distinct_def)
next
  case (Some items)
  assume "Headers ucd m = Inr h"
  with Some have "init_items ucd \<lparr>rawHeaders = []\<rparr> items = Inr h" by (simp add: Headers_def)
  moreover have "dict_keys_distinct \<lparr>rawHeaders = []\<rparr>" by (simp add: dict_keys_distinct_def)
  ultimately show ?thesis by (rule dict_keys_distinct_init_items [rotated])
qed

text \<open>
  C6. Two stores are equal exactly when their sorted item lists are equal, and that is
  exactly when they hold the same mapping from names to value sequences: the order in
  which the entries were inserted does not matter, the order of the values inside a
  sequence does. The constructor and the mutators keep the keys distinct, as a dict
  does.
\<close>

theorem Headers_eq_iff:
  assumes "dict_keys_distinct h1" and "dict_keys_distinct h2"
  shows "(Headers_eq h1 (HeadersObj h2)
            \<longleftrightarrow> py_sorted (rawHeaders h1) = py_sorted (rawHeaders h2))
       \<and> (Headers_eq h1 (HeadersObj h2)
            \<longleftrightarrow> map_of (rawHeaders h1) = map_of (rawHeaders h2))"
proof -
  from assms have k1: "distinct (map fst (rawHeaders h1))" and k2: "distinct (map fst (rawHeaders h2))"
    by (simp_all add: dict_keys_distinct_def)
  have a: "Headers_eq h1 (HeadersObj h2)
             \<longleftrightarrow> py_sorted (rawHeaders h1) = py_sorted (rawHeaders h2)"
    by (simp add: Headers_eq_def cmp_zero)
  have "py_sorted (rawHeaders h1) = py_sorted (rawHeaders h2)
          \<longleftrightarrow> set (rawHeaders h1) = set (rawHeaders h2)"
    unfolding py_sorted_def
    using k1 k2 by (intro sort_eq_iff_set distinct_keys_distinct)
  also have "\<dots> \<longleftrightarrow> map_of (rawHeaders h1) = map_of (rawHeaders h2)"
    using k1 k2 by (simp add: map_of_inject_set)
  finally show ?thesis using a by simp
qed

theorem Headers_eq_iff_witness:
  "run ucd_excerpt \<lparr>rawHeaders = []\<rparr>
       [AddRawHeader (Bytes ''X'') (Bytes ''a''), AddRawHeader (Bytes ''Y'') (Bytes ''b'')]
     = \<lparr>rawHeaders = [(''x'', [''a'']), (''y'', [''b''])]\<rparr>
   \<and> run ucd_excerpt \<lparr>rawHeaders = []\<rparr>
       [AddRawHeader (Bytes ''Y'') (Bytes ''b''), AddRawHeader (Bytes ''X'') (Bytes ''a'')]
     = \<lparr>rawHeaders = [(''y'', [''b'']), (''x'', [''a''])]\<rparr>
   \<and> Headers_eq \<lparr>rawHeaders = [(''x'', [''a'']), (''y'', [''b''])]\<rparr>
         (HeadersObj \<lparr>rawHeaders = [(''y'', [''b'']), (''x'', [''a''])]\<rparr>)
   \<and> map_of [(''x'', [''a'']), (''y'', [''b''])] = map_of [(''y'', [''b'']), (''x'', [''a''])]
   \<and> \<not> Headers_eq \<lparr>rawHeaders = [(''x'', [''a'', ''b''])]\<rparr>
         (HeadersObj \<lparr>rawHeaders = [(''x'', [''b'', ''a''])]\<rparr>)
   \<and> map_of [(''x'', [''a'', ''b''])] \<noteq> map_of [(''x'', [''b'', ''a''])]"
proof -
  let ?e = "\<lparr>rawHeaders = []\<rparr>"
  let ?h1 = "\<lparr>rawHeaders = [(''x'', [''a'']), (''y'', [''b''])]\<rparr>"
  let ?h2 = "\<lparr>rawHeaders = [(''y'', [''b'']), (''x'', [''a''])]\<rparr>"
  let ?h3 = "\<lparr>rawHeaders = [(''x'', [''a'', ''b''])]\<rparr>"
  let ?h4 = "\<lparr>rawHeaders = [(''x'', [''b'', ''a''])]\<rparr>"
  have r1: "run ucd_excerpt ?e
       [AddRawHeader (Bytes ''X'') (Bytes ''a''), AddRawHeader (Bytes ''Y'') (Bytes ''b'')] = ?h1"
    by code_simp
  have r2: "run ucd_excerpt ?e
       [AddRawHeader (Bytes ''Y'') (Bytes ''b''), AddRawHeader (Bytes ''X'') (Bytes ''a'')] = ?h2"
    by code_simp
  have d1: "dict_keys_distinct ?h1" and d2: "dict_keys_distinct ?h2"
    and d3: "dict_keys_distinct ?h3" and d4: "dict_keys_distinct ?h4"
    by (simp_all add: dict_keys_distinct_def)
  have e12: "Headers_eq ?h1 (HeadersObj ?h2)" by code_simp
  have e34: "\<not> Headers_eq ?h3 (HeadersObj ?h4)" by code_simp
  from Headers_eq_iff [OF d1 d2] e12
  have m12: "map_of [(''x'', [''a'']), (''y'', [''b''])] = map_of [(''y'', [''b'']), (''x'', [''a''])]"
    by simp
  from Headers_eq_iff [OF d3 d4] e34
  have m34: "map_of [(''x'', [''a'', ''b''])] \<noteq> map_of [(''x'', [''b'', ''a''])]"
    by simp
  from r1 r2 e12 e34 m12 m34 show ?thesis by blast
qed

subsection \<open>C2: \<open>addRawHeader\<close>\<close>

text \<open>
  Under a byte name \<open>addRawHeader\<close> appends: the value read back is the sequence
  stored before, or none, followed by the new value. Two calls give the values in call
  order, neither sorted nor deduplicated.
\<close>

lemma addRawHeader_appends_bytes:
  assumes "encodeValue val = Inr v"
  shows "\<exists>h'. addRawHeader ucd h (Bytes b) val = Inr h'
           \<and> getRawHeaders ucd h' (Bytes b) d =
               Inr (PyList (map Bytes
                  ((case map_of (rawHeaders h) (bytes_lower b) of None \<Rightarrow> [] | Some vs \<Rightarrow> vs)
                   @ [v])))"
proof -
  have n: "encodeName (Bytes b) = Inr b" by simp
  from addRawHeader_result [OF n assms, of ucd h] show ?thesis
    by (simp add: getRawHeaders_Bytes update_conv')
qed

lemma addRawHeader_twice:
  "run ucd_excerpt \<lparr>rawHeaders = []\<rparr>
       [AddRawHeader (Bytes ''x'') (Bytes ''a''), AddRawHeader (Bytes ''x'') (Bytes ''b'')]
     = \<lparr>rawHeaders = [(''x'', [''a'', ''b''])]\<rparr>
   \<and> getRawHeaders ucd_excerpt \<lparr>rawHeaders = [(''x'', [''a'', ''b''])]\<rparr> (Bytes ''x'') PyNone
     = Inr (PyList [Bytes ''a'', Bytes ''b''])
   \<and> run ucd_excerpt \<lparr>rawHeaders = []\<rparr>
       [AddRawHeader (Unicode [0x78]) (Unicode [0x62]), AddRawHeader (Unicode [0x78]) (Unicode [0x61]),
        AddRawHeader (Unicode [0x78]) (Unicode [0x62])]
     = \<lparr>rawHeaders = [(''x'', [''b'', ''a'', ''b''])]\<rparr>
   \<and> getRawHeaders ucd_excerpt \<lparr>rawHeaders = [(''x'', [''b'', ''a'', ''b''])]\<rparr> (Unicode [0x78]) PyNone
     = Inr (PyList [Unicode [0x62], Unicode [0x61], Unicode [0x62]])"
  by code_simp

text \<open>
  C2 at a text name with a Latin-1 capital. \<open>addRawHeader\<close> encodes the name before it
  lower-cases it, and \<open>bytes.lower\<close> leaves the byte \<open>0xC9\<close> alone, while
  \<open>setRawHeaders\<close>, \<open>getRawHeaders\<close> and \<open>hasHeader\<close> lower-case the text first,
  to U+00E9. So after \<open>setRawHeaders(u'\xc9', [b'a'])\<close> the call
  \<open>addRawHeader(u'\xc9', b'b')\<close> opens a second entry under \<open>b'\xc9'\<close> and
  \<open>getRawHeaders(u'\xc9')\<close> still returns \<open>['a']\<close>; on the empty store the added
  header is not found under its own name.
\<close>

theorem addRawHeader_latin1_capital_not_appended:
  "setRawHeaders ucd_excerpt \<lparr>rawHeaders = []\<rparr> (Unicode [0xC9]) (PyList [Bytes ''a''])
     = Inr \<lparr>rawHeaders = [([CHR 0xE9], [''a''])]\<rparr>
   \<and> getRawHeaders ucd_excerpt \<lparr>rawHeaders = [([CHR 0xE9], [''a''])]\<rparr> (Unicode [0xC9]) PyNone
     = Inr (PyList [Unicode [0x61]])
   \<and> addRawHeader ucd_excerpt \<lparr>rawHeaders = [([CHR 0xE9], [''a''])]\<rparr> (Unicode [0xC9]) (Bytes ''b'')
     = Inr \<lparr>rawHeaders = [([CHR 0xE9], [''a'']), ([CHR 0xC9], [''b''])]\<rparr>
   \<and> getRawHeaders ucd_excerpt \<lparr>rawHeaders = [([CHR 0xE9], [''a'']), ([CHR 0xC9], [''b''])]\<rparr>
        (Unicode [0xC9]) PyNone
     = Inr (PyList [Unicode [0x61]])
   \<and> addRawHeader ucd_excerpt \<lparr>rawHeaders = []\<rparr> (Unicode [0xC9]) (Bytes ''b'')
     = Inr \<lparr>rawHeaders = [([CHR 0xC9], [''b''])]\<rparr>
   \<and> getRawHeaders ucd_excerpt \<lparr>rawHeaders = [([CHR 0xC9], [''b''])]\<rparr> (Unicode [0xC9]) PyNone
     = Inr PyNone
   \<and> hasHeader ucd_excerpt \<lparr>rawHeaders = [([CHR 0xC9], [''b''])]\<rparr> (Unicode [0xC9]) = Inr False"
  by code_simp

end
